theory Spec2Isabelle
  imports Complex_Main
begin

section \<open>Python values used by \<^verbatim>\<open>t/latency_percentiles.py\<close>\<close>

text \<open>
  The script works on Python integers (unbounded, modelled as \<^typ>\<open>int\<close>), on Python
  floats (IEEE-754 binary64) and on strings. Exceptions are values of the type
  \<open>error\<close>; a function that may raise returns \<open>error + 'a\<close> with \<open>Inl\<close> the exception.
\<close>

datatype error =
    KeyError string
  | IndexError
  | ValueError
  | ZeroDivisionError
  | OverflowError
  | FileNotFoundError

subsection \<open>binary64 arithmetic\<close>

text \<open>
  A finite float is represented by the rational number it denotes. \<open>rnd\<close> rounds a
  rational to the nearest binary64 value, ties to even: 53 significant bits in the normal
  range, multiples of \<open>2 powi -1074\<close> in the subnormal range. The sign of a zero is not
  represented (nothing in the script observes it).
\<close>

function ilog2 :: "int \<Rightarrow> int" where
  "ilog2 n = (if n < 2 then 0 else 1 + ilog2 (n div 2))"
  by pat_completeness auto
termination
  by (relation "measure nat") auto

declare ilog2.simps [simp del]

definition floor_log2 :: "rat \<Rightarrow> int" where
  "floor_log2 x =
     (if 1 \<le> x then ilog2 \<lfloor>x\<rfloor> else - (1 + ilog2 (\<lceil>1 / x\<rceil> - 1)))"

definition round_half_even :: "rat \<Rightarrow> int" where
  "round_half_even y =
     (if y - of_int \<lfloor>y\<rfloor> < 1 / 2 then \<lfloor>y\<rfloor>
      else if 1 / 2 < y - of_int \<lfloor>y\<rfloor> then \<lfloor>y\<rfloor> + 1
      else if even \<lfloor>y\<rfloor> then \<lfloor>y\<rfloor> else \<lfloor>y\<rfloor> + 1)"

definition fexp :: "rat \<Rightarrow> int" where
  "fexp x = max (floor_log2 \<bar>x\<bar> - 52) (- 1074)"

definition rnd :: "rat \<Rightarrow> rat" where
  "rnd x =
     (if x = 0 then 0
      else of_int (round_half_even (x / 2 powi fexp x)) * 2 powi fexp x)"

datatype pyfloat = Finite rat | PosInf | NegInf | NaN

text \<open>Rounding a real result to a float: a magnitude that rounds to \<open>2 ^ 1024\<close> is infinite.\<close>

definition to_float :: "rat \<Rightarrow> pyfloat" where
  "to_float x =
     (if 2 ^ 1024 \<le> rnd x then PosInf
      else if rnd x \<le> - (2 ^ 1024) then NegInf
      else Finite (rnd x))"

text \<open>
  \<^verbatim>\<open>a / b\<close> on two Python ints: the correctly rounded quotient; division by zero and a
  quotient too large for a float raise.
\<close>

definition int_truediv :: "int \<Rightarrow> int \<Rightarrow> error + rat" where
  "int_truediv a b =
     (if b = 0 then Inl ZeroDivisionError
      else (case to_float (of_int a / of_int b) of
              Finite q \<Rightarrow> Inr q
            | _ \<Rightarrow> Inl OverflowError))"

text \<open>\<^verbatim>\<open>x / k\<close> for a float \<open>x\<close> and a non-zero int \<open>k\<close> that a float holds exactly.\<close>

definition float_div_int :: "pyfloat \<Rightarrow> int \<Rightarrow> pyfloat" where
  "float_div_int x k =
     (case x of
        Finite a \<Rightarrow> to_float (a / of_int k)
      | PosInf \<Rightarrow> (if 0 < k then PosInf else NegInf)
      | NegInf \<Rightarrow> (if 0 < k then NegInf else PosInf)
      | NaN \<Rightarrow> NaN)"

text \<open>
  \<^verbatim>\<open>x * n\<close> for a float \<open>x\<close> and a list length \<open>n\<close>: the int is converted to a float
  (rounded), then the product is rounded; an infinity times zero is not a number.
\<close>

definition float_mul_len :: "pyfloat \<Rightarrow> nat \<Rightarrow> pyfloat" where
  "float_mul_len x n =
     (case x of
        Finite a \<Rightarrow> to_float (a * rnd (of_nat n))
      | PosInf \<Rightarrow> (if n = 0 then NaN else PosInf)
      | NegInf \<Rightarrow> (if n = 0 then NaN else NegInf)
      | NaN \<Rightarrow> NaN)"

definition math_ceil :: "pyfloat \<Rightarrow> error + int" where
  "math_ceil x =
     (case x of
        Finite a \<Rightarrow> Inr \<lceil>a\<rceil>
      | NaN \<Rightarrow> Inl ValueError
      | _ \<Rightarrow> Inl OverflowError)"

subsection \<open>Strings: \<^verbatim>\<open>int(s)\<close>, \<^verbatim>\<open>float(s)\<close>, \<^verbatim>\<open>s.split(c)\<close>\<close>

text \<open>
  Strings are ASCII texts. \<open>py_int\<close> and \<open>py_float\<close> follow the grammar of the two
  built-ins: surrounding white space (blank, tab, line feed, vertical tab, form feed,
  carriage return; the separators 0x1C to 0x1F are not white space to the two built-ins) is
  dropped, a sign is optional, digits may be grouped
  by single underscores; a float has an optional fraction and exponent, or is one of
  \<^verbatim>\<open>inf\<close>, \<^verbatim>\<open>infinity\<close>, \<^verbatim>\<open>nan\<close> in any letter case. The interpreter's
  configurable limit on the number of digits of \<^verbatim>\<open>int(s)\<close> is not modelled.
\<close>

definition is_space :: "char \<Rightarrow> bool" where
  "is_space c = (c \<in> set [CHR '' '', CHR 0x09, CHR 0x0A, CHR 0x0B, CHR 0x0C, CHR 0x0D])"

definition strip :: "string \<Rightarrow> string" where
  "strip s = rev (dropWhile is_space (rev (dropWhile is_space s)))"

definition is_digit :: "char \<Rightarrow> bool" where
  "is_digit c = (48 \<le> (of_char c :: nat) \<and> (of_char c :: nat) \<le> 57)"

definition digit_val :: "char \<Rightarrow> int" where
  "digit_val c = int (of_char c) - 48"

text \<open>
  \<open>digitpart s acc k prev\<close> reads digits and single underscores between digits; it
  returns the number read and how many digits it had.
\<close>

fun digitpart :: "string \<Rightarrow> int \<Rightarrow> nat \<Rightarrow> bool \<Rightarrow> (int \<times> nat) option" where
  "digitpart [] acc k prev = (if prev then Some (acc, k) else None)"
| "digitpart (c # cs) acc k prev =
     (if is_digit c then digitpart cs (10 * acc + digit_val c) (Suc k) True
      else if c = CHR ''_'' \<and> prev then digitpart cs acc k False
      else None)"

definition split_sign :: "string \<Rightarrow> bool \<times> string" where
  "split_sign s =
     (case s of
        c # cs \<Rightarrow> (if c = CHR ''-'' then (True, cs)
                   else if c = CHR ''+'' then (False, cs) else (False, s))
      | [] \<Rightarrow> (False, s))"

definition py_int :: "string \<Rightarrow> error + int" where
  "py_int s =
     (case split_sign (strip s) of (neg, body) \<Rightarrow>
        (case digitpart body 0 0 False of
           None \<Rightarrow> Inl ValueError
         | Some (n, k) \<Rightarrow> Inr (if neg then - n else n)))"

definition lower :: "char \<Rightarrow> char" where
  "lower c =
     (if 65 \<le> (of_char c :: nat) \<and> (of_char c :: nat) \<le> 90
      then char_of ((of_char c :: nat) + 32) else c)"

definition opt_digitpart :: "string \<Rightarrow> (int \<times> nat) option" where
  "opt_digitpart s = (if s = [] then Some (0, 0) else digitpart s 0 0 False)"

text \<open>The exponent after \<^verbatim>\<open>e\<close>: a sign and a digit part. No exponent counts as 0.\<close>

definition exponent :: "string \<Rightarrow> int option" where
  "exponent s =
     (case s of
        [] \<Rightarrow> Some 0
      | c # cs \<Rightarrow>
          (case split_sign cs of (neg, body) \<Rightarrow>
             (case digitpart body 0 0 False of
                None \<Rightarrow> None
              | Some (n, k) \<Rightarrow> Some (if neg then - n else n))))"

definition is_e :: "char \<Rightarrow> bool" where
  "is_e c = (c = CHR ''e'' \<or> c = CHR ''E'')"

text \<open>The exact value of a decimal literal \<^verbatim>\<open>digits[.digits][e[sign]digits]\<close>.\<close>

definition decimal_value :: "string \<Rightarrow> rat option" where
  "decimal_value s =
     (let mant = takeWhile (\<lambda>c. \<not> is_e c) s;
          ex = dropWhile (\<lambda>c. \<not> is_e c) s;
          ip = takeWhile (\<lambda>c. c \<noteq> CHR ''.'') mant;
          fp = drop 1 (dropWhile (\<lambda>c. c \<noteq> CHR ''.'') mant)
      in if ip = [] \<and> fp = [] then None
         else (case (opt_digitpart ip, opt_digitpart fp, exponent ex) of
                 (Some (i, ki), Some (f, kf), Some e) \<Rightarrow>
                   Some ((of_int i + of_int f / 10 ^ kf) * 10 powi e)
               | _ \<Rightarrow> None))"

definition py_float :: "string \<Rightarrow> error + pyfloat" where
  "py_float s =
     (case split_sign (strip s) of (neg, body) \<Rightarrow>
        (if map lower body = ''inf'' \<or> map lower body = ''infinity''
         then Inr (if neg then NegInf else PosInf)
         else if map lower body = ''nan'' then Inr NaN
         else (case decimal_value body of
                 None \<Rightarrow> Inl ValueError
               | Some v \<Rightarrow> Inr (to_float (if neg then - v else v)))))"

fun split_on :: "char \<Rightarrow> string \<Rightarrow> string list" where
  "split_on c [] = [[]]"
| "split_on c (x # xs) =
     (if x = c then [] # split_on c xs
      else (case split_on c xs of
              y # ys \<Rightarrow> (x # y) # ys
            | [] \<Rightarrow> [[x]]))"

text \<open>\<^verbatim>\<open>xs[i]\<close>: a negative index counts from the end, an index out of range raises.\<close>

definition py_index :: "'a list \<Rightarrow> int \<Rightarrow> error + 'a" where
  "py_index xs i =
     (let j = (if i < 0 then int (length xs) + i else i)
      in if 0 \<le> j \<and> j < int (length xs) then Inr (xs ! nat j) else Inl IndexError)"

text \<open>A list comprehension over a function that may raise stops at the first exception.\<close>

fun map_err :: "('a \<Rightarrow> error + 'b) \<Rightarrow> 'a list \<Rightarrow> error + 'b list" where
  "map_err f [] = Inr []"
| "map_err f (x # xs) =
     (case f x of
        Inl e \<Rightarrow> Inl e
      | Inr y \<Rightarrow> (case map_err f xs of Inl e \<Rightarrow> Inl e | Inr ys \<Rightarrow> Inr (y # ys)))"

text \<open>\<^verbatim>\<open>min(xs)\<close> and \<^verbatim>\<open>max(xs)\<close> raise \<^verbatim>\<open>ValueError\<close> on an empty list.\<close>

definition py_min :: "int list \<Rightarrow> error + int" where
  "py_min xs = (case xs of [] \<Rightarrow> Inl ValueError | y # ys \<Rightarrow> Inr (fold min ys y))"

definition py_max :: "int list \<Rightarrow> error + int" where
  "py_max xs = (case xs of [] \<Rightarrow> Inl ValueError | y # ys \<Rightarrow> Inr (fold max ys y))"

section \<open>The report and the diagnostics\<close>

text \<open>
  The parsed JSON report is a nested dictionary. The statistics of one latency type are
  the record \<open>lat_stats\<close>: \<^verbatim>\<open>N\<close>, \<^verbatim>\<open>min\<close> and \<^verbatim>\<open>max\<close> are integers, the keys
  \<^verbatim>\<open>percentile\<close> and \<^verbatim>\<open>bins\<close> may be absent (\<open>None\<close>); when present they are
  dictionaries from strings to integers, kept as association lists in the order of the
  document. One data direction is a \<open>dir_stats\<close>; the \<^verbatim>\<open>sync\<close> section has only the
  fields of \<open>sync_stats\<close>.
\<close>

record lat_stats =
  stat_N :: int
  stat_min :: int
  stat_max :: int
  percentile :: "(string \<times> int) list option"
  bins :: "(string \<times> int) list option"

record sync_stats =
  total_ios :: int
  lat_ns :: lat_stats

record dir_stats = sync_stats +
  slat_ns :: lat_stats
  clat_ns :: lat_stats

text \<open>
  Every \<^verbatim>\<open>print\<close> of the script is one constructor of \<open>msg\<close>, with the values the
  message is formatted from.
\<close>

datatype msg =
    Unexpected_percentiles string
  | Percentiles_skipped string
  | Percentiles_not_found string
  | Bins_not_found
  | Bins_found
  | Total_ios_mismatch string int nat
  | Percentile_error string string int int rat
  | Rank_index int int
  | Percentiles_match string
  | Min_mismatch int int
  | Max_mismatch int int
  | Size_mismatch int int
  | Sync_not_found
  | Sync_mismatch
  | Sync_unexpected_bins
  | Terse_mismatch string int int int

text \<open>
  A call prints messages and then returns a value or raises: its result is the list of
  messages printed, in order, and the outcome. Messages printed before an exception stay.
\<close>

type_synonym 'a res = "msg list \<times> (error + 'a)"

definition ret :: "'a \<Rightarrow> 'a res" where
  "ret x = ([], Inr x)"

definition print :: "msg \<Rightarrow> unit res" where
  "print m = ([m], Inr ())"

definition lift :: "error + 'a \<Rightarrow> 'a res" where
  "lift r = ([], r)"

definition bind :: "'a res \<Rightarrow> ('a \<Rightarrow> 'b res) \<Rightarrow> 'b res" where
  "bind m f =
     (case m of
        (out, Inl e) \<Rightarrow> (out, Inl e)
      | (out, Inr x) \<Rightarrow> (case f x of (out', r) \<Rightarrow> (out @ out', r)))"

section \<open>The comparator \<^verbatim>\<open>similar\<close>\<close>

text \<open>
  \<^verbatim>\<open>delta = abs(estimate - actual) / actual; return delta <= 1/128\<close>. Both divisions
  are true divisions of ints.
\<close>

definition similar :: "int \<Rightarrow> int \<Rightarrow> error + bool" where
  "similar estimate actual =
     (case int_truediv \<bar>estimate - actual\<bar> actual of
        Inl e \<Rightarrow> Inl e
      | Inr delta \<Rightarrow>
          (case int_truediv 1 128 of
             Inl e \<Rightarrow> Inl e
           | Inr bound \<Rightarrow> Inr (delta \<le> bound)))"

section \<open>The histogram checker \<^verbatim>\<open>check_jsonplus\<close>\<close>

definition check_jsonplus :: "lat_stats \<Rightarrow> bool res" where
  "check_jsonplus jsondata =
     (let retval = True in
      bind (lift (case bins jsondata of None \<Rightarrow> Inl (KeyError ''bins'') | Some b \<Rightarrow> Inr b))
       (\<lambda>b.
      bind (lift (map_err py_int (map fst b))) (\<lambda>keys.
      let values = map snd b in
      bind (lift (py_min keys)) (\<lambda>smallest.
      bind (lift (py_max keys)) (\<lambda>biggest.
      let sampsize = sum_list values in
      bind (lift (similar (stat_min jsondata) smallest)) (\<lambda>ok_min.
      bind (if \<not> ok_min then print (Min_mismatch (stat_min jsondata) smallest) else ret ())
       (\<lambda>_.
      let retval = (if \<not> ok_min then False else retval) in
      bind (lift (similar (stat_max jsondata) biggest)) (\<lambda>ok_max.
      bind (if \<not> ok_max then print (Max_mismatch (stat_max jsondata) biggest) else ret ())
       (\<lambda>_.
      let retval = (if \<not> ok_max then False else retval) in
      bind (if sampsize \<noteq> stat_N jsondata
            then print (Size_mismatch (stat_N jsondata) sampsize) else ret ())
       (\<lambda>_.
      let retval = (if sampsize \<noteq> stat_N jsondata then False else retval) in
      ret retval))))))))))"

section \<open>The sync checker \<^verbatim>\<open>check_sync_lat\<close>\<close>


section \<open>The cross-encoding checker \<^verbatim>\<open>check_terse\<close>\<close>

text \<open>
  One terse field: \<^verbatim>\<open>split = lat.split('%'); pct = split[0];
  terse_val = int(split[1][1:])\<close>.
\<close>

definition parse_field :: "string \<Rightarrow> error + (string \<times> int)" where
  "parse_field lat =
     (let split = split_on CHR ''%'' lat in
      case py_index split 0 of
        Inl e \<Rightarrow> Inl e
      | Inr pct \<Rightarrow>
          (case py_index split 1 of
             Inl e \<Rightarrow> Inl e
           | Inr rest \<Rightarrow>
               (case py_int (drop 1 rest) of
                  Inl e \<Rightarrow> Inl e
                | Inr terse_val \<Rightarrow> Inr (pct, terse_val))))"

text \<open>\<^verbatim>\<open>json_val = math.floor(jsondata[pct]/1000)\<close>.\<close>

definition json_micro :: "(string \<times> int) list \<Rightarrow> string \<Rightarrow> error + (int \<times> int)" where
  "json_micro jsondata pct =
     (case map_of jsondata pct of
        None \<Rightarrow> Inl (KeyError pct)
      | Some v \<Rightarrow>
          (case int_truediv v 1000 of
             Inl e \<Rightarrow> Inl e
           | Inr q \<Rightarrow> Inr (v, \<lfloor>q\<rfloor>)))"

fun terse_loop :: "string list \<Rightarrow> (string \<times> int) list \<Rightarrow> bool \<Rightarrow> bool res" where
  "terse_loop [] jsondata retval = ret retval"
| "terse_loop (lat # rest) jsondata retval =
     bind (lift (parse_field lat)) (\<lambda>(pct, terse_val).
     bind (lift (json_micro jsondata pct)) (\<lambda>(v, json_val).
     bind (if terse_val \<noteq> json_val
           then print (Terse_mismatch pct v json_val terse_val) else ret ())
      (\<lambda>_.
     terse_loop rest jsondata (if terse_val \<noteq> json_val then False else retval))))"

definition check_terse :: "string list \<Rightarrow> (string \<times> int) list \<Rightarrow> bool res" where
  "check_terse terse jsondata = terse_loop terse jsondata True"

section \<open>The direction validator \<^verbatim>\<open>check_latencies\<close>\<close>

text \<open>
  \<^verbatim>\<open>jsondata[lat+'_ns']\<close> and \<^verbatim>\<open>types[lat]\<close>: dictionary lookups by a string key.
\<close>

definition section_of :: "dir_stats \<Rightarrow> string \<Rightarrow> error + lat_stats" where
  "section_of jsondata key =
     (if key = ''slat_ns'' then Inr (slat_ns jsondata)
      else if key = ''clat_ns'' then Inr (clat_ns jsondata)
      else if key = ''lat_ns'' then Inr (lat_ns jsondata)
      else Inl (KeyError key))"

definition types_of :: "bool \<Rightarrow> bool \<Rightarrow> bool \<Rightarrow> string \<Rightarrow> error + bool" where
  "types_of slat clat tlat lat =
     (case map_of [(''slat'', slat), (''clat'', clat), (''lat'', tlat)] lat of
        None \<Rightarrow> Inl (KeyError lat)
      | Some b \<Rightarrow> Inr b)"

text \<open>
  The latency log is read with \<^verbatim>\<open>csv.reader\<close>: every row is a list of strings. A row
  is kept when \<^verbatim>\<open>unified or int(line[2]) == ddir\<close>, and contributes
  \<^verbatim>\<open>int(line[1])\<close>.
\<close>

definition row_selected :: "string list \<Rightarrow> int \<Rightarrow> bool \<Rightarrow> error + bool" where
  "row_selected line ddir unified =
     (if unified then Inr True
      else (case py_index line 2 of
              Inl e \<Rightarrow> Inl e
            | Inr field \<Rightarrow>
                (case py_int field of Inl e \<Rightarrow> Inl e | Inr d \<Rightarrow> Inr (d = ddir))))"

definition row_latency :: "string list \<Rightarrow> error + int" where
  "row_latency line =
     (case py_index line 1 of Inl e \<Rightarrow> Inl e | Inr field \<Rightarrow> py_int field)"

fun load_latencies :: "string list list \<Rightarrow> int \<Rightarrow> bool \<Rightarrow> error + int list" where
  "load_latencies [] ddir unified = Inr []"
| "load_latencies (line # rest) ddir unified =
     (case row_selected line ddir unified of
        Inl e \<Rightarrow> Inl e
      | Inr sel \<Rightarrow>
          (case (if sel then (case row_latency line of Inl e \<Rightarrow> Inl e | Inr v \<Rightarrow> Inr [v])
                 else Inr []) of
             Inl e \<Rightarrow> Inl e
           | Inr vs \<Rightarrow>
               (case load_latencies rest ddir unified of
                  Inl e \<Rightarrow> Inl e
                | Inr others \<Rightarrow> Inr (vs @ others))))"

text \<open>\<^verbatim>\<open>rank = math.ceil(float(percentile)/100 * len(latencies))\<close>.\<close>

definition rank_of :: "string \<Rightarrow> nat \<Rightarrow> error + int" where
  "rank_of percentile' n =
     (case py_float percentile' of
        Inl e \<Rightarrow> Inl e
      | Inr x \<Rightarrow> math_ceil (float_mul_len (float_div_int x 100) n))"

text \<open>
  The reference value for one percentile label, from the sorted samples: the rank, the
  index \<^verbatim>\<open>rank - 1 if rank > 0 else 0\<close> and \<^verbatim>\<open>latencies[int(index)]\<close>.
\<close>

definition reference :: "int list \<Rightarrow> string \<Rightarrow> error + (int \<times> int \<times> int)" where
  "reference latencies percentile' =
     (case rank_of percentile' (length latencies) of
        Inl e \<Rightarrow> Inl e
      | Inr rank \<Rightarrow>
          (let index = (if rank > 0 then rank - 1 else 0)
           in case py_index latencies index of
                Inl e \<Rightarrow> Inl e
              | Inr val \<Rightarrow> Inr (rank, index, val)))"

text \<open>
  The body of the loop over \<^verbatim>\<open>ptiles.keys()\<close> for one label and its reported value:
  the reference value, \<^verbatim>\<open>delta\<close>, the comparison and the two messages of a failure.
  It yields the verdict of \<^verbatim>\<open>similar\<close>.
\<close>

definition check_ptile :: "string \<Rightarrow> int list \<Rightarrow> string \<times> int \<Rightarrow> bool res" where
  "check_ptile lat latencies entry =
     (case entry of (percentile', fio_val) \<Rightarrow>
        bind (lift (reference latencies percentile')) (\<lambda>(rank, index, val).
        bind (lift (int_truediv \<bar>fio_val - val\<bar> val)) (\<lambda>delta.
        bind (lift (similar fio_val val)) (\<lambda>ok.
        bind (if \<not> ok
              then bind (print (Percentile_error lat percentile' fio_val val delta))
                     (\<lambda>_. print (Rank_index rank index))
              else ret ())
         (\<lambda>_.
        ret ok)))))"

text \<open>The loop, carrying \<^verbatim>\<open>this_iter\<close>.\<close>

fun ptile_loop :: "string \<Rightarrow> int list \<Rightarrow> (string \<times> int) list \<Rightarrow> bool \<Rightarrow> bool res" where
  "ptile_loop lat latencies [] this_iter = ret this_iter"
| "ptile_loop lat latencies (entry # rest) this_iter =
     bind (check_ptile lat latencies entry) (\<lambda>ok.
     ptile_loop lat latencies rest (if \<not> ok then False else this_iter))"

text \<open>
  The body of the loop over the latency types, in three blocks. \<open>gate\<close> is the presence
  and encoding gating of an enabled type (the \<^verbatim>\<open>else\<close> branch on \<^verbatim>\<open>types[lat]\<close> and
  the test on \<^verbatim>\<open>plus\<close>); it yields \<^verbatim>\<open>this_iter\<close>.
\<close>

definition gate :: "lat_stats \<Rightarrow> bool \<Rightarrow> string \<Rightarrow> bool res" where
  "gate stats plus' lat =
     (let this_iter = True in
      bind (if percentile stats = None then print (Percentiles_not_found lat) else ret ())
       (\<lambda>_.
      let this_iter = (if percentile stats = None then False else this_iter) in
      if plus' then
        (if bins stats = None then bind (print Bins_not_found) (\<lambda>_. ret False)
         else bind (check_jsonplus stats) (\<lambda>ok. ret (if \<not> ok then False else this_iter)))
      else
        (if bins stats \<noteq> None then bind (print Bins_found) (\<lambda>_. ret False)
         else ret this_iter)))"

text \<open>
  \<open>compare_samples\<close> reads the log, checks the sample count against \<^verbatim>\<open>total_ios\<close>,
  sorts the samples and runs the loop over the percentiles. \<open>read_log lat\<close> stands for the
  rows of the log file of that type under \<^verbatim>\<open>test_dir\<close>, \<open>None\<close> when it cannot be
  opened.
\<close>

definition compare_samples ::
  "(string \<Rightarrow> string list list option) \<Rightarrow> dir_stats \<Rightarrow> lat_stats \<Rightarrow> int \<Rightarrow> bool
     \<Rightarrow> string \<Rightarrow> bool \<Rightarrow> bool res" where
  "compare_samples read_log jsondata stats ddir unified lat this_iter =
     bind (lift (case read_log lat of None \<Rightarrow> Inl FileNotFoundError | Some rows \<Rightarrow> Inr rows))
      (\<lambda>rows.
     bind (lift (load_latencies rows ddir unified)) (\<lambda>latencies.
     bind (if total_ios jsondata \<noteq> int (length latencies)
           then print (Total_ios_mismatch lat (total_ios jsondata) (length latencies))
           else ret ())
      (\<lambda>_.
     let this_iter = (if total_ios jsondata \<noteq> int (length latencies) then False else this_iter);
         latencies = sort latencies in
     bind (lift (case percentile stats of
                   None \<Rightarrow> Inl (KeyError ''percentile'') | Some p \<Rightarrow> Inr p))
      (\<lambda>ptiles.
     ptile_loop lat latencies ptiles this_iter))))"

text \<open>
  The whole body. The result \<open>None\<close> is the \<^verbatim>\<open>continue\<close> of the disabled branch, which
  leaves the body with \<^verbatim>\<open>this_iter\<close> unused; \<open>Some this_iter\<close> reaches the end of the
  body.
\<close>

definition check_lat ::
  "(string \<Rightarrow> string list list option) \<Rightarrow> dir_stats \<Rightarrow> int \<Rightarrow> bool \<Rightarrow> bool \<Rightarrow> bool
     \<Rightarrow> bool \<Rightarrow> bool \<Rightarrow> string \<Rightarrow> bool option res" where
  "check_lat read_log jsondata ddir slat clat tlat plus' unified lat =
     (let this_iter = True in
      bind (lift (types_of slat clat tlat lat)) (\<lambda>enabled.
      bind (lift (section_of jsondata (lat @ ''_ns''))) (\<lambda>stats.
      if \<not> enabled then
        bind (if percentile stats \<noteq> None
              then print (Unexpected_percentiles lat) else print (Percentiles_skipped lat))
         (\<lambda>_.
        let this_iter = (if percentile stats \<noteq> None then False else this_iter) in
        ret None)
      else
        bind (gate stats plus' lat) (\<lambda>this_iter.
        bind (compare_samples read_log jsondata stats ddir unified lat this_iter)
         (\<lambda>this_iter.
        ret (Some this_iter))))))"

fun lat_loop ::
  "(string \<Rightarrow> string list list option) \<Rightarrow> dir_stats \<Rightarrow> int \<Rightarrow> bool \<Rightarrow> bool \<Rightarrow> bool
     \<Rightarrow> bool \<Rightarrow> bool \<Rightarrow> string list \<Rightarrow> bool \<Rightarrow> bool res" where
  "lat_loop read_log jsondata ddir slat clat tlat plus' unified [] retval = ret retval"
| "lat_loop read_log jsondata ddir slat clat tlat plus' unified (lat # rest) retval =
     bind (check_lat read_log jsondata ddir slat clat tlat plus' unified lat) (\<lambda>r.
     case r of
       None \<Rightarrow> lat_loop read_log jsondata ddir slat clat tlat plus' unified rest retval
     | Some this_iter \<Rightarrow>
         bind (if this_iter then print (Percentiles_match lat) else ret ()) (\<lambda>_.
         lat_loop read_log jsondata ddir slat clat tlat plus' unified rest
           (if this_iter then retval else False)))"

definition check_latencies ::
  "(string \<Rightarrow> string list list option) \<Rightarrow> dir_stats \<Rightarrow> int \<Rightarrow> bool \<Rightarrow> bool \<Rightarrow> bool
     \<Rightarrow> bool \<Rightarrow> bool \<Rightarrow> bool res" where
  "check_latencies read_log jsondata ddir slat clat tlat plus' unified =
     lat_loop read_log jsondata ddir slat clat tlat plus' unified
       [''slat'', ''clat'', ''lat''] True"

section \<open>The report parser \<^verbatim>\<open>get_json\<close>\<close>

text \<open>
  \<open>lines\<close> is \<^verbatim>\<open>file_data.splitlines()\<close>; \<open>loads\<close> stands for \<^verbatim>\<open>json.loads\<close>,
  \<open>None\<close> when it raises \<^verbatim>\<open>JSONDecodeError\<close>. The function returns a pair of a flag
  and either the document or the empty string.
\<close>

datatype 'd pyval = Doc 'd | Str string

fun join_lines :: "string list \<Rightarrow> string" where
  "join_lines [] = []"
| "join_lines [l] = l"
| "join_lines (l # m # ls) = l @ [CHR 0x0A] @ join_lines (m # ls)"

fun try_offsets :: "(string \<Rightarrow> 'd option) \<Rightarrow> string list \<Rightarrow> nat list \<Rightarrow> bool \<times> 'd pyval" where
  "try_offsets loads lines [] = (False, Str [])"
| "try_offsets loads lines (i # rest) =
     (case loads (join_lines (drop i lines)) of
        None \<Rightarrow> try_offsets loads lines rest
      | Some json_data \<Rightarrow> (True, Doc json_data))"

definition get_json :: "(string \<Rightarrow> 'd option) \<Rightarrow> string list \<Rightarrow> bool \<times> 'd pyval" where
  "get_json loads lines = try_offsets loads lines [0 ..< 5]"

section \<open>Properties stated by the specification\<close>

text \<open>
  The condition of the cross-encoding claim, in the words of the specification: the
  condensed integer value of a field equals the integer floor division by 1000 of the
  structured value under the field's label.
\<close>

definition field_exact :: "(string \<times> int) list \<Rightarrow> string \<Rightarrow> bool" where
  "field_exact jsondata lat =
     (case parse_field lat of
        Inl e \<Rightarrow> False
      | Inr (pct, terse_val) \<Rightarrow>
          (case map_of jsondata pct of
             None \<Rightarrow> False
           | Some v \<Rightarrow> terse_val = v div 1000))"

text \<open>
  A field is in the domain of the claim when it parses, its label is a key of the
  structured report, and the structured value is a non-negative integer below \<open>2^53\<close>.
\<close>

definition field_in_domain :: "(string \<times> int) list \<Rightarrow> string \<Rightarrow> bool" where
  "field_in_domain jsondata lat =
     (case parse_field lat of
        Inl e \<Rightarrow> False
      | Inr (pct, terse_val) \<Rightarrow>
          (case map_of jsondata pct of
             None \<Rightarrow> False
           | Some v \<Rightarrow> 0 \<le> v \<and> v < 2 ^ 53))"

text \<open>
  The tolerance of the specification, in its words: the relative error
  \<open>|estimate - actual| / actual\<close>, an exact quotient, is at most \<open>1/128\<close>; for a
  reference value of zero, where the quotient is undefined, its stated policy is that only
  an estimate of zero passes.
\<close>

definition within_tolerance :: "int \<Rightarrow> int \<Rightarrow> bool" where
  "within_tolerance estimate actual =
     (if actual = 0 then estimate = 0
      else \<bar>of_int estimate - of_int actual\<bar> / of_int actual \<le> (1 / 128 :: rat))"

text \<open>
  The condition of the histogram claim, in the words of the specification: the table is
  present with integer keys, the reported minimum is within tolerance of the smallest key
  and the reported maximum of the largest key, and the counts add up to the reported sample
  size exactly.
\<close>

definition histogram_consistent :: "lat_stats \<Rightarrow> bool" where
  "histogram_consistent jsondata =
     (case bins jsondata of
        None \<Rightarrow> False
      | Some b \<Rightarrow>
          (case map_err py_int (map fst b) of
             Inl e \<Rightarrow> False
           | Inr keys \<Rightarrow>
               keys \<noteq> []
               \<and> within_tolerance (stat_min jsondata) (Min (set keys))
               \<and> within_tolerance (stat_max jsondata) (Max (set keys))
               \<and> sum_list (map snd b) = stat_N jsondata))"

text \<open>The statistics of one of the three latency types, \<^verbatim>\<open>jsondata[lat+'_ns']\<close>.\<close>

definition stats_of :: "dir_stats \<Rightarrow> string \<Rightarrow> lat_stats" where
  "stats_of jsondata lat =
     (if lat = ''slat'' then slat_ns jsondata
      else if lat = ''clat'' then clat_ns jsondata else lat_ns jsondata)"

text \<open>
  Inputs on which the checks return a verdict. \<open>comparable\<close>: the reference value is
  positive and the quotient of the difference by it is below \<open>2^1024 - 2^970\<close>, the least
  magnitude that rounds out of the floats. \<open>bins_evaluable\<close>: the table is present with
  integer keys, not empty, and both bounds are comparable. \<open>rows_parse\<close>: every row of the
  log has an integer latency and direction. \<open>label_in_range\<close>: the label reads as a float
  between 0 and 100. \<open>ptiles_comparable\<close>: there are samples whenever there are
  percentiles, and every reported value is comparable with every sample.
\<close>

definition comparable :: "int \<Rightarrow> int \<Rightarrow> bool" where
  "comparable estimate actual =
     (0 < actual \<and> \<bar>estimate - actual\<bar> < (2 ^ 1024 - 2 ^ 970) * actual)"

definition bins_evaluable :: "lat_stats \<Rightarrow> bool" where
  "bins_evaluable stats =
     (case bins stats of
        None \<Rightarrow> False
      | Some b \<Rightarrow>
          (case map_err py_int (map fst b) of
             Inl e \<Rightarrow> False
           | Inr keys \<Rightarrow>
               keys \<noteq> []
               \<and> comparable (stat_min stats) (Min (set keys))
               \<and> comparable (stat_max stats) (Max (set keys))))"

definition rows_parse :: "string list list \<Rightarrow> bool" where
  "rows_parse rows =
     list_all (\<lambda>line.
        (case py_index line 2 of
           Inl e \<Rightarrow> False
         | Inr field \<Rightarrow> (case py_int field of Inl e \<Rightarrow> False | Inr d \<Rightarrow> True))
        \<and> (case row_latency line of Inl e \<Rightarrow> False | Inr v \<Rightarrow> True)) rows"

definition label_in_range :: "string \<Rightarrow> bool" where
  "label_in_range label =
     (case py_float label of Inr (Finite x) \<Rightarrow> 0 \<le> x \<and> x \<le> 100 | _ \<Rightarrow> False)"

definition ptiles_comparable :: "int list \<Rightarrow> (string \<times> int) list \<Rightarrow> bool" where
  "ptiles_comparable latencies ptiles =
     (ptiles = []
      \<or> latencies \<noteq> [] \<and> length latencies < 2 ^ 53
        \<and> list_all (\<lambda>entry. label_in_range (fst entry)
                       \<and> list_all (comparable (snd entry)) latencies) ptiles)"

text \<open>
  A latency type of a report is well-formed when its percentiles are present, its table
  (looked at under the extended encoding only) is absent or evaluable, its log opens and
  parses, and its percentiles are comparable with the samples loaded. A report is
  well-formed when every enabled type is.
\<close>

definition type_wellformed ::
  "(string \<Rightarrow> string list list option) \<Rightarrow> dir_stats \<Rightarrow> int \<Rightarrow> bool \<Rightarrow> bool \<Rightarrow> string \<Rightarrow> bool"
  where
  "type_wellformed read_log jsondata ddir plus' unified lat =
     (case percentile (stats_of jsondata lat) of
        None \<Rightarrow> False
      | Some ptiles \<Rightarrow>
          (if plus' then bins (stats_of jsondata lat) = None
                       \<or> bins_evaluable (stats_of jsondata lat)
           else True)
          \<and> (case read_log lat of
               None \<Rightarrow> False
             | Some rows \<Rightarrow>
                 rows_parse rows
                 \<and> (case load_latencies rows ddir unified of
                      Inl e \<Rightarrow> False
                    | Inr latencies \<Rightarrow> ptiles_comparable latencies ptiles)))"

definition report_wellformed ::
  "(string \<Rightarrow> string list list option) \<Rightarrow> dir_stats \<Rightarrow> int \<Rightarrow> bool \<Rightarrow> bool \<Rightarrow> bool
     \<Rightarrow> bool \<Rightarrow> bool \<Rightarrow> bool" where
  "report_wellformed read_log jsondata ddir slat clat tlat plus' unified =
     ((if slat then type_wellformed read_log jsondata ddir plus' unified ''slat'' else True)
      \<and> (if clat then type_wellformed read_log jsondata ddir plus' unified ''clat'' else True)
      \<and> (if tlat then type_wellformed read_log jsondata ddir plus' unified ''lat'' else True))"




section \<open>A small report and its latency log\<close>

text \<open>
  A latency log as \<^verbatim>\<open>csv.reader\<close> yields it (time, latency, direction, block size,
  offset; the fields after the first keep their leading blank): two reads of 10 and 20
  nanoseconds and one write. \<open>reads_stats\<close> are statistics that agree with the two reads
  under the plain encoding; \<open>off_stats\<close> is what the report holds for a type whose
  percentiles are switched off.
\<close>

definition sample_log :: "string list list" where
  "sample_log =
     [[''0'', '' 10'', '' 0'', '' 4096'', '' 0''],
      [''1'', '' 20'', '' 0'', '' 4096'', '' 0''],
      [''2'', '' 30'', '' 1'', '' 4096'', '' 0'']]"

definition sample_ptiles :: "(string \<times> int) list" where
  "sample_ptiles = [(''50.000000'', 10), (''99.000000'', 20)]"

definition reads_stats :: lat_stats where
  "reads_stats =
     \<lparr>stat_N = 2, stat_min = 10, stat_max = 20, percentile = Some sample_ptiles, bins = None\<rparr>"

definition off_stats :: lat_stats where
  "off_stats = \<lparr>stat_N = 0, stat_min = 0, stat_max = 0, percentile = None, bins = None\<rparr>"



section \<open>Properties of the binary64 model\<close>

lemma ilog2_bounds:
  "1 \<le> n \<Longrightarrow> 0 \<le> ilog2 n \<and> 2 ^ nat (ilog2 n) \<le> n \<and> n < 2 ^ nat (ilog2 n + 1)"
proof (induction n rule: ilog2.induct)
  case (1 n)
  show ?case
  proof (cases "n < 2")
    case True
    with "1.prems" have "n = 1" by simp
    then show ?thesis by (simp add: ilog2.simps)
  next
    case False
    then have h: "1 \<le> n div 2" by simp
    from "1.IH" [OF False h]
    have a: "0 \<le> ilog2 (n div 2)" and b: "2 ^ nat (ilog2 (n div 2)) \<le> n div 2"
      and c: "n div 2 < 2 ^ nat (ilog2 (n div 2) + 1)" by simp_all
    have e: "ilog2 n = 1 + ilog2 (n div 2)" using False by (subst ilog2.simps) simp
    have n1: "nat (ilog2 n) = Suc (nat (ilog2 (n div 2)))" using a e by simp
    have n2: "nat (ilog2 n + 1) = Suc (nat (ilog2 (n div 2) + 1))" using a e by simp
    have n3: "nat (ilog2 (n div 2) + 1) = Suc (nat (ilog2 (n div 2)))" using a by simp
    have "2 * 2 ^ nat (ilog2 (n div 2)) \<le> n" using b by linarith
    moreover have "n < 2 * 2 ^ nat (ilog2 (n div 2) + 1)" using c by linarith
    ultimately show ?thesis using a e n1 n2 by simp
  qed
qed

lemma floor_log2_bounds:
  assumes "0 < x"
  shows "2 powi floor_log2 x \<le> x \<and> x < 2 powi (floor_log2 x + 1)"
proof (cases "1 \<le> x")
  case True
  then have f1: "1 \<le> \<lfloor>x\<rfloor>" by simp
  note b = ilog2_bounds [OF f1]
  have e: "floor_log2 x = ilog2 \<lfloor>x\<rfloor>" using True by (simp add: floor_log2_def)
  have "(2::rat) powi ilog2 \<lfloor>x\<rfloor> = 2 ^ nat (ilog2 \<lfloor>x\<rfloor>)"
    using b by (simp add: power_int_nonneg_exp)
  also have "\<dots> = of_int (2 ^ nat (ilog2 \<lfloor>x\<rfloor>))" by simp
  also have "\<dots> \<le> of_int \<lfloor>x\<rfloor>" using b by (simp only: of_int_le_iff)
  also have "\<dots> \<le> x" by simp
  finally have lo: "2 powi ilog2 \<lfloor>x\<rfloor> \<le> x" .
  have "\<lfloor>x\<rfloor> + 1 \<le> 2 ^ nat (ilog2 \<lfloor>x\<rfloor> + 1)" using b by simp
  then have "(of_int (\<lfloor>x\<rfloor> + 1) :: rat) \<le> of_int (2 ^ nat (ilog2 \<lfloor>x\<rfloor> + 1))"
    by (simp only: of_int_le_iff)
  moreover have "x < of_int (\<lfloor>x\<rfloor> + 1)" by linarith
  moreover have "(2::rat) powi (ilog2 \<lfloor>x\<rfloor> + 1) = of_int (2 ^ nat (ilog2 \<lfloor>x\<rfloor> + 1))"
    using b by (simp add: power_int_nonneg_exp)
  ultimately have "x < 2 powi (ilog2 \<lfloor>x\<rfloor> + 1)" by linarith
  with lo e show ?thesis by simp
next
  case False
  define N where "N = \<lceil>1 / x\<rceil>"
  define c where "c = 1 + ilog2 (N - 1)"
  have x1: "x < 1" using False by simp
  have y1: "1 < 1 / x" using assms x1 by simp
  have N2: "1 \<le> N - 1" unfolding N_def using y1 by (simp add: less_ceiling_iff)
  note b = ilog2_bounds [OF N2]
  have e: "floor_log2 x = - c" using False by (simp add: floor_log2_def c_def N_def)
  have c0: "0 < c" using b by (simp add: c_def)
  have pc: "(2::rat) powi c = of_int (2 ^ nat c)" using c0 by (simp add: power_int_nonneg_exp)
  have pc1: "(2::rat) powi (c - 1) = of_int (2 ^ nat (c - 1))"
    using c0 by (simp add: power_int_nonneg_exp)
  have "N \<le> 2 ^ nat c" using b by (simp add: c_def add.commute)
  then have "(of_int N :: rat) \<le> of_int (2 ^ nat c)" by (simp only: of_int_le_iff)
  moreover have "1 / x \<le> of_int N" unfolding N_def by simp
  ultimately have "1 / x \<le> 2 powi c" using pc by linarith
  moreover have "(0::rat) < 2 powi c" by simp
  ultimately have "1 / 2 powi c \<le> x" using assms by (simp only: pos_divide_le_eq mult.commute)
  then have lo: "2 powi (- c) \<le> x" by (simp only: power_int_minus_divide)
  have "2 ^ nat (c - 1) \<le> N - 1" using b by (simp add: c_def)
  then have "(of_int (2 ^ nat (c - 1)) :: rat) \<le> of_int (N - 1)" by (simp only: of_int_le_iff)
  moreover have "of_int (N - 1) < 1 / x" unfolding N_def by linarith
  ultimately have "2 powi (c - 1) < 1 / x" using pc1 by linarith
  then have "x * 2 powi (c - 1) < 1" using assms by (simp add: field_simps)
  moreover have "(0::rat) < 2 powi (c - 1)" by simp
  ultimately have "x < 1 / 2 powi (c - 1)" by (simp only: pos_less_divide_eq)
  moreover have "- c + 1 = - (c - 1)" by simp
  ultimately have hi: "x < 2 powi (- c + 1)" by (simp only: power_int_minus_divide)
  from lo hi e show ?thesis by simp
qed

lemma pow2_less_cancel: "(2::rat) powi a < 2 powi b \<Longrightarrow> a < b"
proof (rule ccontr)
  assume h: "(2::rat) powi a < 2 powi b" and "\<not> a < b"
  then have "b \<le> a" by simp
  then have "(2::rat) powi b \<le> 2 powi a" by (rule power_int_increasing) simp
  with h show False by simp
qed

lemma floor_log2_unique:
  assumes "0 < x" "2 powi k \<le> x" "x < 2 powi (k + 1)"
  shows "floor_log2 x = k"
proof -
  note b = floor_log2_bounds [OF assms(1)]
  have "(2::rat) powi k < 2 powi (floor_log2 x + 1)" using b assms by linarith
  then have 1: "k < floor_log2 x + 1" by (rule pow2_less_cancel)
  have "(2::rat) powi floor_log2 x < 2 powi (k + 1)" using b assms by linarith
  then have 2: "floor_log2 x < k + 1" by (rule pow2_less_cancel)
  from 1 2 show ?thesis by simp
qed

lemma rhe_lower: "\<lfloor>y\<rfloor> \<le> round_half_even y"
  by (simp add: round_half_even_def)

lemma rhe_upper: "round_half_even y \<le> \<lceil>y\<rceil>"
  by (simp add: round_half_even_def ceiling_altdef)

lemma rhe_le: "y \<le> of_int z \<Longrightarrow> round_half_even y \<le> z"
  using rhe_upper [of y] by (meson ceiling_le_iff order_trans)

lemma rhe_ge: "of_int z \<le> y \<Longrightarrow> z \<le> round_half_even y"
  using rhe_lower [of y] by (meson le_floor_iff order_trans)

lemma rhe_of_int: "round_half_even (of_int n) = n"
  by (simp add: round_half_even_def)

lemma rhe_gt_half: 
  assumes "of_int z + 1 / 2 < y"
  shows "z < round_half_even y"
proof (cases "z < \<lfloor>y\<rfloor>")
  case True
  then show ?thesis using rhe_lower [of y] by simp
next
  case False
  moreover have "z \<le> \<lfloor>y\<rfloor>" using assms by (simp add: le_floor_iff)
  ultimately have "\<lfloor>y\<rfloor> = z" by simp
  then have "1 / 2 < y - of_int \<lfloor>y\<rfloor>" using assms by simp
  then show ?thesis using \<open>\<lfloor>y\<rfloor> = z\<close> by (simp add: round_half_even_def)
qed

lemma rhe_err: "\<bar>of_int (round_half_even y) - y\<bar> \<le> 1 / 2"
proof -
  have "of_int \<lfloor>y\<rfloor> \<le> y" "y < of_int \<lfloor>y\<rfloor> + 1" by linarith+
  then show ?thesis by (auto simp add: round_half_even_def)
qed

lemma rnd_le:
  assumes "x \<le> of_int m * 2 powi fexp x"
  shows "rnd x \<le> of_int m * 2 powi fexp x"
proof (cases "x = 0")
  case True
  with assms show ?thesis by (simp add: rnd_def)
next
  case False
  have P: "(0::rat) < 2 powi fexp x" by simp
  have "x / 2 powi fexp x \<le> of_int m" using assms P by (simp only: pos_divide_le_eq)
  then have "round_half_even (x / 2 powi fexp x) \<le> m" by (rule rhe_le)
  then have "(of_int (round_half_even (x / 2 powi fexp x)) :: rat) \<le> of_int m"
    by (simp only: of_int_le_iff)
  then have "(of_int (round_half_even (x / 2 powi fexp x)) :: rat) * 2 powi fexp x
      \<le> of_int m * 2 powi fexp x"
    using P by (simp only: mult_le_cancel_right_pos)
  then show ?thesis using False by (simp add: rnd_def)
qed

lemma rnd_ge:
  assumes "of_int m * 2 powi fexp x \<le> x"
  shows "of_int m * 2 powi fexp x \<le> rnd x"
proof (cases "x = 0")
  case True
  with assms show ?thesis by (simp add: rnd_def)
next
  case False
  have P: "(0::rat) < 2 powi fexp x" by simp
  have "of_int m \<le> x / 2 powi fexp x" using assms P by (simp only: pos_le_divide_eq)
  then have "m \<le> round_half_even (x / 2 powi fexp x)" by (rule rhe_ge)
  then have "(of_int m :: rat) \<le> of_int (round_half_even (x / 2 powi fexp x))"
    by (simp only: of_int_le_iff)
  then have "(of_int m :: rat) * 2 powi fexp x
      \<le> of_int (round_half_even (x / 2 powi fexp x)) * 2 powi fexp x"
    using P by (simp only: mult_le_cancel_right_pos)
  then show ?thesis using False by (simp add: rnd_def)
qed

lemma repr_scale:
  assumes "e \<le> k"
  shows "(of_int a :: rat) * 2 powi k = of_int (a * 2 ^ nat (k - e)) * 2 powi e"
proof -
  have "(2::rat) powi k = 2 powi ((k - e) + e)" by simp
  also have "\<dots> = 2 powi (k - e) * 2 powi e" by (rule power_int_add) simp
  also have "(2::rat) powi (k - e) = 2 ^ nat (k - e)"
    using assms by (simp add: power_int_nonneg_exp)
  finally show ?thesis by simp
qed

lemma rnd_le_repr:
  assumes "x \<le> of_int a * 2 powi k" "fexp x \<le> k"
  shows "rnd x \<le> of_int a * 2 powi k"
proof -
  have eq: "(of_int a :: rat) * 2 powi k = of_int (a * 2 ^ nat (k - fexp x)) * 2 powi fexp x"
    using assms(2) by (rule repr_scale)
  from assms(1) have "x \<le> of_int (a * 2 ^ nat (k - fexp x)) * 2 powi fexp x"
    by (simp only: eq)
  then have "rnd x \<le> of_int (a * 2 ^ nat (k - fexp x)) * 2 powi fexp x" by (rule rnd_le)
  then show ?thesis by (simp only: eq)
qed

lemma rnd_ge_repr:
  assumes "of_int a * 2 powi k \<le> x" "fexp x \<le> k"
  shows "of_int a * 2 powi k \<le> rnd x"
proof -
  have eq: "(of_int a :: rat) * 2 powi k = of_int (a * 2 ^ nat (k - fexp x)) * 2 powi fexp x"
    using assms(2) by (rule repr_scale)
  from assms(1) have "of_int (a * 2 ^ nat (k - fexp x)) * 2 powi fexp x \<le> x"
    by (simp only: eq)
  then have "of_int (a * 2 ^ nat (k - fexp x)) * 2 powi fexp x \<le> rnd x" by (rule rnd_ge)
  then show ?thesis by (simp only: eq)
qed

lemma floor_log2_le:
  assumes "0 < x" "x < 2 powi (k + 1)"
  shows "floor_log2 x \<le> k"
proof -
  have "2 powi floor_log2 x \<le> x" using floor_log2_bounds [OF assms(1)] by simp
  with assms have "(2::rat) powi floor_log2 x < 2 powi (k + 1)" by linarith
  then have "floor_log2 x < k + 1" by (rule pow2_less_cancel)
  then show ?thesis by simp
qed

lemma floor_log2_ge:
  assumes "0 < x" "2 powi k \<le> x"
  shows "k \<le> floor_log2 x"
proof -
  have "x < 2 powi (floor_log2 x + 1)" using floor_log2_bounds [OF assms(1)] by simp
  with assms have "(2::rat) powi k < 2 powi (floor_log2 x + 1)" by linarith
  then have "k < floor_log2 x + 1" by (rule pow2_less_cancel)
  then show ?thesis by simp
qed

lemma fexp_le:
  assumes "0 < x" "x < 2 powi (k + 1)"
  shows "fexp x \<le> max (k - 52) (- 1074)"
  using floor_log2_le [OF assms] assms(1) by (simp add: fexp_def)

lemma rnd_nonneg: "0 \<le> x \<Longrightarrow> 0 \<le> rnd x"
  using rnd_ge [of 0 x] by simp

lemma rnd_err:
  assumes "x \<noteq> 0"
  shows "\<bar>rnd x - x\<bar> \<le> 2 powi fexp x / 2"
proof -
  define P :: rat where "P = 2 powi fexp x"
  have P: "0 < P" by (simp add: P_def)
  have "\<bar>of_int (round_half_even (x / P)) - x / P\<bar> \<le> 1 / 2" by (rule rhe_err)
  then have "\<bar>of_int (round_half_even (x / P)) - x / P\<bar> * P \<le> 1 / 2 * P"
    using P by (simp only: mult_le_cancel_right_pos)
  moreover have "\<bar>of_int (round_half_even (x / P)) - x / P\<bar> * P
      = \<bar>of_int (round_half_even (x / P)) * P - x\<bar>"
  proof -
    have "\<bar>of_int (round_half_even (x / P)) - x / P\<bar> * P
        = \<bar>of_int (round_half_even (x / P)) - x / P\<bar> * \<bar>P\<bar>"
      using P by simp
    also have "\<dots> = \<bar>(of_int (round_half_even (x / P)) - x / P) * P\<bar>"
      by (simp only: abs_mult)
    also have "(of_int (round_half_even (x / P)) - x / P) * P
        = of_int (round_half_even (x / P)) * P - x"
      using P by (simp add: left_diff_distrib)
    finally show ?thesis .
  qed
  ultimately have e: "\<bar>of_int (round_half_even (x / P)) * P - x\<bar> \<le> P / 2" by simp
  have r: "rnd x = of_int (round_half_even (x / P)) * P"
    using assms by (simp add: rnd_def P_def)
  from e show ?thesis unfolding r unfolding P_def .
qed

lemma rnd_exact_repr:
  assumes "x = of_int a * 2 powi k" "fexp x \<le> k"
  shows "rnd x = x"
proof -
  have "rnd x \<le> of_int a * 2 powi k" using assms by (intro rnd_le_repr) simp_all
  moreover have "of_int a * 2 powi k \<le> rnd x" using assms by (intro rnd_ge_repr) simp_all
  ultimately show ?thesis using assms(1) by simp
qed

lemma fexp_le_floor_log2: "- 1074 \<le> floor_log2 \<bar>x\<bar> \<Longrightarrow> fexp x \<le> floor_log2 \<bar>x\<bar>"
  by (simp add: fexp_def)

lemma rnd_ge_pow2:
  assumes "0 < x" "2 powi k \<le> x" "- 1074 \<le> k"
  shows "2 powi k \<le> rnd x"
proof -
  have kf: "k \<le> floor_log2 x" using assms(1,2) by (rule floor_log2_ge)
  have ax: "\<bar>x\<bar> = x" using assms(1) by simp
  have "fexp x \<le> floor_log2 x" using fexp_le_floor_log2 [of x] kf assms(3) ax by simp
  moreover have "of_int 1 * 2 powi floor_log2 x \<le> x"
    using floor_log2_bounds [OF assms(1)] by simp
  ultimately have "of_int 1 * 2 powi floor_log2 x \<le> rnd x" by (intro rnd_ge_repr)
  moreover have "(2::rat) powi k \<le> 2 powi floor_log2 x"
    using kf by (intro power_int_increasing) simp_all
  ultimately show ?thesis by simp
qed

lemma rnd_le_pow2:
  assumes "0 < x" "x \<le> 2 powi k" "- 1074 \<le> k"
  shows "rnd x \<le> 2 powi k"
proof -
  have "(2::rat) powi k < 2 powi (k + 1)" by (intro power_int_strict_increasing) simp_all
  with assms have "x < 2 powi (k + 1)" by simp
  with assms(1) have "fexp x \<le> max (k - 52) (- 1074)" by (rule fexp_le)
  then have "fexp x \<le> k" using assms(3) by simp
  moreover have "x \<le> of_int 1 * 2 powi k" using assms(2) by simp
  ultimately have "rnd x \<le> of_int 1 * 2 powi k" by (intro rnd_le_repr)
  then show ?thesis by simp
qed

lemma to_float_finite:
  "- (2 ^ 1024) < rnd x \<Longrightarrow> rnd x < 2 ^ 1024 \<Longrightarrow> to_float x = Finite (rnd x)"
  by (simp add: to_float_def)

lemma rnd_1_128: "rnd (1 / 128) = 1 / 128"
proof -
  have e: "(1 / 128 :: rat) = of_int 1 * 2 powi (- 7)" by simp
  have "(1 / 128 :: rat) < 2 powi (- 7 + 1)" by simp
  then have "fexp (1 / 128) \<le> max (- 7 - 52) (- 1074)" by (intro fexp_le) simp_all
  then have "fexp (1 / 128) \<le> - 7" by simp
  with e show ?thesis by (rule rnd_exact_repr)
qed

lemma int_truediv_1_128: "int_truediv 1 128 = Inr (1 / 128)"
  by (simp add: int_truediv_def to_float_def rnd_1_128)

text \<open>The rounded quotient is within the bound exactly when the quotient is, below 2^53.\<close>

lemma rnd_le_1_128_iff:
  assumes d: "0 \<le> d" and a: "0 < a" "a < 2 ^ 53"
  shows "rnd (of_int d / of_int a) \<le> 1 / 128 \<longleftrightarrow> (of_int d / of_int a :: rat) \<le> 1 / 128"
proof -
  define q :: rat where "q = of_int d / of_int a"
  have q0: "0 \<le> q" using d a by (simp add: q_def)
  have ar: "(0::rat) < of_int a" using a by simp
  show ?thesis
  proof (cases "q \<le> 1 / 128")
    case True
    have "rnd q \<le> 1 / 128"
    proof (cases "q = 0")
      case True
      then show ?thesis by (simp add: rnd_def)
    next
      case False
      with q0 have "0 < q" by simp
      moreover have "q \<le> 2 powi (- 7)" using True by simp
      ultimately have "rnd q \<le> 2 powi (- 7)" by (rule rnd_le_pow2) simp
      then show ?thesis by simp
    qed
    with True show ?thesis by (simp add: q_def)
  next
    case False
    then have gt: "1 / 128 < q" by simp
    then have qpos: "0 < q" by simp
    have "of_int a < (of_int d :: rat) * 128"
      using gt ar by (simp add: q_def pos_less_divide_eq)
    then have "(of_int a :: rat) < of_int (d * 128)" by simp
    then have "a < d * 128" by (simp only: of_int_less_iff)
    then have "a + 1 \<le> d * 128" by simp
    then have "(of_int (a + 1) :: rat) \<le> of_int (d * 128)" by (simp only: of_int_le_iff)
    then have i1: "(of_int a :: rat) + 1 \<le> of_int d * 128" by simp
    have "(of_int a :: rat) < of_int (2 ^ 53)" using a(2) by (simp only: of_int_less_iff)
    then have a53: "(of_int a :: rat) < 2 ^ 53" by simp
    have "of_int a * (2 ^ 52 + 1 / 2) < (of_int d :: rat) * 2 ^ 59"
    proof -
      have "of_int a * (2 ^ 52 + 1 / 2) < (of_int a :: rat) * 2 ^ 52 + 2 ^ 52"
        using a53 by (simp add: distrib_left)
      also have "\<dots> = (of_int a + 1) * 2 ^ 52" by (simp add: distrib_right)
      also have "\<dots> \<le> (of_int d * 128) * 2 ^ 52" using i1 by (simp only: mult_le_cancel_right_pos zero_less_power zero_less_numeral)
      also have "\<dots> = of_int d * 2 ^ 59" by simp
      finally show ?thesis .
    qed
    then have half: "2 ^ 52 + 1 / 2 < q * 2 ^ 59"
      using ar by (simp add: q_def pos_less_divide_eq mult.commute)
    have "1 / 128 < rnd q"
    proof (cases "q < 2 powi (- 6)")
      case True
      have "2 powi (- 7) \<le> q" using gt by simp
      moreover have "q < 2 powi (- 7 + 1)" using True by simp
      ultimately have "floor_log2 q = - 7" using qpos by (intro floor_log2_unique)
      then have fe: "fexp q = - 59" using qpos by (simp add: fexp_def)
      have "q / 2 powi (- 59) = q * 2 ^ 59" by simp
      with half have "of_int (2 ^ 52) + 1 / 2 < q / 2 powi (- 59)" by simp
      then have "2 ^ 52 < round_half_even (q / 2 powi (- 59))" by (rule rhe_gt_half)
      then have "2 ^ 52 + 1 \<le> round_half_even (q / 2 powi (- 59))" by simp
      then have "(of_int (2 ^ 52 + 1) :: rat) \<le> of_int (round_half_even (q / 2 powi (- 59)))"
        by (simp only: of_int_le_iff)
      then have "(of_int (2 ^ 52 + 1) :: rat) * 2 powi (- 59)
          \<le> of_int (round_half_even (q / 2 powi (- 59))) * 2 powi (- 59)"
        by (simp only: mult_le_cancel_right_pos zero_less_power_int zero_less_numeral)
      also have "\<dots> = rnd q" using qpos fe by (simp add: rnd_def)
      finally have "(of_int (2 ^ 52 + 1) :: rat) * 2 powi (- 59) \<le> rnd q" .
      moreover have "(1 / 128 :: rat) < of_int (2 ^ 52 + 1) * 2 powi (- 59)" by simp
      ultimately show ?thesis by simp
    next
      case False
      then have "2 powi (- 6) \<le> q" by simp
      with qpos have "2 powi (- 6) \<le> rnd q" by (rule rnd_ge_pow2) simp
      then show ?thesis by simp
    qed
    with False show ?thesis by (simp add: q_def)
  qed
qed

text \<open>A non-negative quotient of moderate size does not overflow.\<close>

lemma int_truediv_finite:
  assumes "0 \<le> d" "0 < a" "d \<le> 3 * 2 ^ 1022"
  shows "int_truediv d a = Inr (rnd (of_int d / of_int a))"
proof -
  define q :: rat where "q = of_int d / of_int a"
  have q0: "0 \<le> q" using assms by (simp add: q_def)
  have "(1::rat) \<le> of_int a" using assms(2) by simp
  then have "q \<le> of_int d" using assms(1) by (simp add: q_def divide_le_eq mult_left_mono mult_le_cancel_left1)
  moreover have "(of_int d :: rat) \<le> of_int (3 * 2 ^ 1022)" using assms(3) by (simp only: of_int_le_iff)
  ultimately have qb: "q \<le> of_int 3 * 2 powi 1022" by simp
  have lo: "0 \<le> rnd q" using q0 by (rule rnd_nonneg)
  have hi: "rnd q \<le> of_int 3 * 2 powi 1022"
  proof (cases "q = 0")
    case True
    then show ?thesis by (simp add: rnd_def)
  next
    case False
    with q0 have qpos: "0 < q" by simp
    have "q < 2 powi (1023 + 1)" using qb by simp
    with qpos have "fexp q \<le> max (1023 - 52) (- 1074)" by (rule fexp_le)
    then have "fexp q \<le> 1022" by simp
    with qb show ?thesis by (rule rnd_le_repr)
  qed
  have "to_float q = Finite (rnd q)" using lo hi by (intro to_float_finite) simp_all
  then show ?thesis using assms(2) by (simp add: int_truediv_def q_def)
qed

lemma similar_exact:
  assumes "0 < actual" "actual < 2 ^ 53" "\<bar>estimate\<bar> < 2 ^ 1023"
  shows "similar estimate actual =
    Inr (\<bar>of_int estimate - of_int actual\<bar> / of_int actual \<le> (1 / 128 :: rat))"
proof -
  define d where "d = \<bar>estimate - actual\<bar>"
  have d0: "0 \<le> d" by (simp add: d_def)
  have "d \<le> \<bar>estimate\<bar> + actual" using assms(1) by (simp add: d_def)
  also have "\<dots> < 2 ^ 1023 + 2 ^ 53" using assms by simp
  also have "\<dots> \<le> (3 * 2 ^ 1022 :: int)" by simp
  finally have "d \<le> 3 * 2 ^ 1022" by simp
  with d0 assms(1) have t: "int_truediv d actual = Inr (rnd (of_int d / of_int actual))"
    by (rule int_truediv_finite)
  have dr: "(of_int d :: rat) = \<bar>of_int estimate - of_int actual\<bar>" by (simp add: d_def)
  have "similar estimate actual = Inr (rnd (of_int d / of_int actual) \<le> 1 / 128)"
    using t by (simp add: similar_def int_truediv_1_128 d_def)
  also have "(rnd (of_int d / of_int actual) \<le> 1 / 128) = ((of_int d / of_int actual :: rat) \<le> 1 / 128)"
    using d0 assms(1,2) by (rule rnd_le_1_128_iff)
  finally show ?thesis by (simp only: dr)
qed

lemma similar_refl: 
  assumes "0 < x"
  shows "similar x x = Inr True"
proof -
  have "int_truediv 0 x = Inr (rnd (of_int 0 / of_int x))" using assms by (intro int_truediv_finite) simp_all
  then show ?thesis by (simp add: similar_def int_truediv_1_128 rnd_def)
qed

lemma similar_zero: "similar estimate 0 = Inl ZeroDivisionError"
  by (simp add: similar_def int_truediv_def)

lemma floor_numeral_div_rat:
  "\<lfloor>(numeral a / numeral b :: rat)\<rfloor> = numeral a div numeral b"
  using floor_divide_of_int_eq [of "numeral a" "numeral b", where ?'a = rat] by simp

lemma rnd_normal:
  assumes "2 powi k \<le> x" "x < 2 powi (k + 1)" "- 1022 \<le> k"
  shows "rnd x = of_int (round_half_even (x / 2 powi (k - 52))) * 2 powi (k - 52)"
proof -
  have "(0::rat) < 2 powi k" by simp
  with assms(1) have x0: "0 < x" by linarith
  then have "floor_log2 x = k" using assms(1,2) by (rule floor_log2_unique)
  then have "fexp x = k - 52" using x0 assms(3) by (simp add: fexp_def)
  then show ?thesis using x0 by (simp add: rnd_def)
qed

lemmas parse_defs = py_float_def py_int_def strip_def is_space_def split_sign_def lower_def
  decimal_value_def is_e_def opt_digitpart_def is_digit_def digit_val_def exponent_def

lemma rnd_zero [simp]: "rnd 0 = 0"
  by (simp add: rnd_def)

text \<open>Rounding respects an integer bound that a float holds exactly.\<close>

lemma fexp_le_0:
  assumes "0 < x" "x < 2 ^ 53"
  shows "fexp x \<le> 0"
proof -
  have "x < 2 powi (52 + 1)" using assms(2) by simp
  with assms(1) have "fexp x \<le> max (52 - 52) (- 1074)" by (rule fexp_le)
  then show ?thesis by simp
qed

lemma rnd_le_int:
  assumes "0 \<le> x" "x \<le> of_int a" "x < 2 ^ 53"
  shows "rnd x \<le> of_int a"
proof (cases "x = 0")
  case True
  with assms(2) show ?thesis by simp
next
  case False
  with assms(1) have "0 < x" by simp
  then have "fexp x \<le> 0" using assms(3) by (rule fexp_le_0)
  moreover have "x \<le> of_int a * 2 powi 0" using assms(2) by simp
  ultimately have "rnd x \<le> of_int a * 2 powi 0" by (intro rnd_le_repr)
  then show ?thesis by simp
qed

lemma rnd_ge_int:
  assumes "0 \<le> x" "of_int a \<le> x" "x < 2 ^ 53"
  shows "of_int a \<le> rnd x"
proof (cases "x = 0")
  case True
  with assms(2) show ?thesis by simp
next
  case False
  with assms(1) have "0 < x" by simp
  then have "fexp x \<le> 0" using assms(3) by (rule fexp_le_0)
  moreover have "of_int a * 2 powi 0 \<le> x" using assms(2) by simp
  ultimately have "of_int a * 2 powi 0 \<le> rnd x" by (intro rnd_ge_repr)
  then show ?thesis by simp
qed

lemma rnd_of_nat:
  assumes "n < 2 ^ 53"
  shows "rnd (of_nat n) = of_nat n"
proof -
  have lt: "(of_nat n :: rat) < 2 ^ 53"
    using assms by (metis of_nat_less_iff of_nat_numeral of_nat_power)
  have "rnd (of_nat n) \<le> of_int (int n)" using lt by (intro rnd_le_int) simp_all
  moreover have "of_int (int n) \<le> rnd (of_nat n)" using lt by (intro rnd_ge_int) simp_all
  ultimately show ?thesis by simp
qed

text \<open>The rank of a label whose float lies in [0, 100] is between 0 and the sample count.\<close>

lemma rank_of_bounds:
  assumes "py_float label = Inr (Finite x)" "0 \<le> x" "x \<le> 100" "n < 2 ^ 53"
  shows "rank_of label n = Inr \<lceil>rnd (rnd (x / 100) * of_nat n)\<rceil>"
    and "0 \<le> \<lceil>rnd (rnd (x / 100) * of_nat n)\<rceil>"
    and "\<lceil>rnd (rnd (x / 100) * of_nat n)\<rceil> \<le> int n"
proof -
  define x1 where "x1 = rnd (x / 100)"
  define x2 where "x2 = rnd (x1 * of_nat n)"
  have lt: "(of_nat n :: rat) < 2 ^ 53"
    using assms(4) by (metis of_nat_less_iff of_nat_numeral of_nat_power)
  have a0: "0 \<le> x1" unfolding x1_def using assms(2) by (intro rnd_nonneg) simp
  have a1: "x1 \<le> 1"
  proof -
    have "rnd (x / 100) \<le> of_int 1" using assms(2,3) by (intro rnd_le_int) simp_all
    then show ?thesis by (simp add: x1_def)
  qed
  have f1: "to_float (x / 100) = Finite x1"
    unfolding x1_def using a0 a1 by (intro to_float_finite) (simp_all add: x1_def)
  have p0: "0 \<le> x1 * of_nat n" using a0 by simp
  have p1: "x1 * of_nat n \<le> of_nat n"
    using mult_right_mono [of x1 1 "of_nat n"] a1 by simp
  have b0: "0 \<le> x2" unfolding x2_def using p0 by (rule rnd_nonneg)
  have b1: "x2 \<le> of_nat n"
  proof -
    have "rnd (x1 * of_nat n) \<le> of_int (int n)" using p0 p1 lt by (intro rnd_le_int) simp_all
    then show ?thesis by (simp add: x2_def)
  qed
  have "x2 < 2 ^ 1024" using b1 lt by simp
  then have f2: "to_float (x1 * of_nat n) = Finite x2"
    unfolding x2_def using b0 by (intro to_float_finite) (simp_all add: x2_def)
  show "rank_of label n = Inr \<lceil>rnd (rnd (x / 100) * of_nat n)\<rceil>"
    using assms(1,4) f1 f2
    by (simp add: rank_of_def float_div_int_def float_mul_len_def math_ceil_def rnd_of_nat
        x1_def x2_def)
  show "0 \<le> \<lceil>rnd (rnd (x / 100) * of_nat n)\<rceil>" using b0 by (simp add: x1_def x2_def)
  have "\<lceil>x2\<rceil> \<le> \<lceil>(of_nat n :: rat)\<rceil>" using b1 by (rule ceiling_mono)
  then show "\<lceil>rnd (rnd (x / 100) * of_nat n)\<rceil> \<le> int n" by (simp add: x1_def x2_def)
qed

text \<open>A decimal in [0, 100] is a finite float in [0, 100].\<close>

lemma to_float_percent:
  assumes "0 \<le> p" "p \<le> 100"
  shows "to_float p = Finite (rnd p)" and "0 \<le> rnd p" and "rnd p \<le> 100"
proof -
  show a: "0 \<le> rnd p" using assms(1) by (rule rnd_nonneg)
  have "rnd p \<le> of_int 100" using assms by (intro rnd_le_int) simp_all
  then show b: "rnd p \<le> 100" by simp
  from a b show "to_float p = Finite (rnd p)" by (intro to_float_finite) simp_all
qed

text \<open>Below 2^53 the floor of the float quotient by 1000 is the integer quotient.\<close>

lemma truediv_1000_floor:
  assumes "0 \<le> v" "v < 2 ^ 53"
  shows "int_truediv v 1000 = Inr (rnd (of_int v / 1000))"
    and "\<lfloor>rnd (of_int v / 1000)\<rfloor> = v div 1000"
proof -
  define x :: rat where "x = of_int v / 1000"
  define k where "k = v div 1000"
  have "int_truediv v 1000 = Inr (rnd (of_int v / of_int 1000))"
    using assms by (intro int_truediv_finite) simp_all
  then show "int_truediv v 1000 = Inr (rnd (of_int v / 1000))" by simp
  have x0: "0 \<le> x" using assms(1) by (simp add: x_def)
  have "(of_int v :: rat) < of_int (2 ^ 53)" using assms(2) by (simp only: of_int_less_iff)
  then have v53: "(of_int v :: rat) < 2 ^ 53" by simp
  then have x44: "x < 2 ^ 44" by (simp add: x_def)
  then have x53: "x < 2 ^ 53" by simp
  have "k * 1000 \<le> v" "v \<le> k * 1000 + 999" unfolding k_def by simp_all
  then have "(of_int (k * 1000) :: rat) \<le> of_int v" "(of_int v :: rat) \<le> of_int (k * 1000 + 999)"
    by (simp_all only: of_int_le_iff)
  then have lo: "of_int k \<le> x" and hi: "x \<le> of_int k + 999 / 1000"
    by (simp_all add: x_def)
  have ge: "of_int k \<le> rnd x" using x0 lo x53 by (rule rnd_ge_int)
  have lt: "rnd x < of_int k + 1"
  proof (cases "x = 0")
    case True
    with lo have "(of_int k :: rat) \<le> 0" by simp
    moreover have "0 \<le> k" using assms(1) by (simp add: k_def pos_imp_zdiv_nonneg_iff)
    ultimately show ?thesis using True by simp
  next
    case False
    with x0 have xp: "0 < x" by simp
    have "x < 2 powi (43 + 1)" using x44 by simp
    with xp have "fexp x \<le> max (43 - 52) (- 1074)" by (rule fexp_le)
    then have "fexp x \<le> - 9" by simp
    then have "(2 :: rat) powi fexp x \<le> 2 powi (- 9)" by (intro power_int_increasing) simp_all
    then have "(2 :: rat) powi fexp x / 2 \<le> 1 / 1024" by simp
    moreover have "\<bar>rnd x - x\<bar> \<le> 2 powi fexp x / 2" using False by (rule rnd_err)
    ultimately have "rnd x \<le> x + 1 / 1024" by linarith
    with hi show ?thesis by linarith
  qed
  from ge lt have "\<lfloor>rnd x\<rfloor> = k" by (simp add: floor_unique)
  then show "\<lfloor>rnd (of_int v / 1000)\<rfloor> = v div 1000" by (simp add: x_def k_def)
qed

text \<open>The error of one rounding, relative with an absolute term for subnormals.\<close>

lemma rnd_abs_err: "\<bar>rnd x - x\<bar> \<le> \<bar>x\<bar> * 2 powi (- 53) + 2 powi (- 1075)"
proof (cases "x = 0")
  case True
  then show ?thesis by simp
next
  case False
  then have ax: "0 < \<bar>x\<bar>" by simp
  note e = rnd_err [OF False]
  show ?thesis
  proof (cases "- 1074 \<le> floor_log2 \<bar>x\<bar> - 52")
    case True
    then have f: "fexp x = floor_log2 \<bar>x\<bar> - 52" by (simp add: fexp_def)
    from e have e': "\<bar>rnd x - x\<bar> \<le> 2 powi (floor_log2 \<bar>x\<bar> - 52) / 2" by (simp only: f)
    have "(2 :: rat) powi (floor_log2 \<bar>x\<bar> - 52) / 2
        = 2 powi floor_log2 \<bar>x\<bar> * 2 powi (- 53)"
    proof -
      have "(2 :: rat) powi (floor_log2 \<bar>x\<bar> - 52)
          = 2 powi floor_log2 \<bar>x\<bar> / 2 powi 52"
        by (rule power_int_diff) simp
      then show ?thesis by simp
    qed
    moreover have "(2 :: rat) powi floor_log2 \<bar>x\<bar> \<le> \<bar>x\<bar>"
      using floor_log2_bounds [OF ax] by simp
    then have "(2 :: rat) powi floor_log2 \<bar>x\<bar> * 2 powi (- 53) \<le> \<bar>x\<bar> * 2 powi (- 53)"
      by (simp only: mult_le_cancel_right_pos zero_less_power_int zero_less_numeral)
    moreover have "(0 :: rat) \<le> 2 powi (- 1075)" by simp
    ultimately show ?thesis using e' by linarith
  next
    case False
    then have f: "fexp x = - 1074" by (simp add: fexp_def)
    from e have e': "\<bar>rnd x - x\<bar> \<le> 2 powi (- 1074) / 2" by (simp only: f)
    have "(2 :: rat) powi (- 1074) / 2 = 2 powi (- 1075)" by simp
    moreover have "0 \<le> \<bar>x\<bar> * 2 powi (- 53)" by simp
    ultimately show ?thesis using e' by linarith
  qed
qed


text \<open>Up to \<open>2^50\<close> samples the float product is within a half of the exact product.\<close>

lemma float_product_close:
  assumes "0 \<le> p" "p \<le> 100" "n \<le> 2 ^ 50"
  shows "\<bar>rnd (rnd (rnd p / 100) * of_nat n) - p / 100 * of_nat n\<bar> < 1 / 2"
proof -
  define u :: rat where "u = 2 powi (- 53)"
  define t :: rat where "t = 2 powi (- 1075)"
  define N :: rat where "N = of_nat n"
  define p0 where "p0 = rnd p"
  define x1 where "x1 = rnd (p0 / 100)"
  define x2 where "x2 = rnd (x1 * N)"
  have u: "u = 1 / 2 ^ 53" by (simp add: u_def)
  have t0: "0 \<le> t" by (simp add: t_def)
  have "t \<le> 2 powi (- 60)" unfolding t_def by (intro power_int_increasing) simp_all
  then have t60: "t \<le> 1 / 2 ^ 60" by simp
  have N0: "0 \<le> N" by (simp add: N_def)
  have "(of_nat n :: rat) \<le> of_nat (2 ^ 50)" using assms(3) by (simp only: of_nat_le_iff)
  then have N50: "N \<le> 2 ^ 50" by (simp add: N_def)
  have p00: "0 \<le> p0" and p0100: "p0 \<le> 100"
    using to_float_percent(2,3) [OF assms(1,2)] by (simp_all add: p0_def)
  have x10: "0 \<le> x1" unfolding x1_def using p00 by (intro rnd_nonneg) simp
  have "rnd (p0 / 100) \<le> of_int 1" using p00 p0100 by (intro rnd_le_int) simp_all
  then have x11: "x1 \<le> 1" by (simp add: x1_def)
  have e0: "\<bar>p0 - p\<bar> \<le> p * u + t"
    using rnd_abs_err [of p] assms(1) by (simp add: p0_def u_def t_def)
  have e1: "\<bar>x1 - p0 / 100\<bar> \<le> p0 / 100 * u + t"
    using rnd_abs_err [of "p0 / 100"] p00 by (simp add: x1_def u_def t_def)
  have e2: "\<bar>x2 - x1 * N\<bar> \<le> x1 * N * u + t"
    using rnd_abs_err [of "x1 * N"] x10 N0 by (simp add: x2_def u_def t_def)
  have b0: "\<bar>p0 - p\<bar> \<le> 100 * u + t"
    using e0 assms(2) by (simp add: u)
  have b1: "\<bar>x1 - p0 / 100\<bar> \<le> u + t"
    using e1 p0100 by (simp add: u)
  have "x1 * N \<le> 1 * N" using x11 N0 by (rule mult_right_mono)
  then have "x1 * N * u \<le> N * u" by (simp add: u)
  with e2 have b2: "\<bar>x2 - x1 * N\<bar> \<le> N * u + t" by linarith
  have m1: "\<bar>N * (x1 - p0 / 100)\<bar> \<le> N * (u + t)"
  proof -
    have "\<bar>N * (x1 - p0 / 100)\<bar> = N * \<bar>x1 - p0 / 100\<bar>"
      using N0 by (simp add: abs_mult)
    also have "\<dots> \<le> N * (u + t)" using b1 N0 by (rule mult_left_mono)
    finally show ?thesis .
  qed
  have m0: "\<bar>N * ((p0 - p) / 100)\<bar> \<le> N * ((100 * u + t) / 100)"
  proof -
    have "\<bar>N * ((p0 - p) / 100)\<bar> = N * (\<bar>p0 - p\<bar> / 100)"
      using N0 by (simp add: abs_mult)
    also have "\<dots> \<le> N * ((100 * u + t) / 100)"
      using b0 N0 by (intro mult_left_mono) simp_all
    finally show ?thesis .
  qed
  have split: "x2 - p / 100 * N
      = (x2 - x1 * N) + N * (x1 - p0 / 100) + N * ((p0 - p) / 100)"
    by (simp add: field_simps)
  have Nu: "N * u \<le> 1 / 8" using N50 by (simp add: u)
  have "N * t \<le> 2 ^ 50 * t" using N50 t0 by (rule mult_right_mono)
  also have "\<dots> \<le> 2 ^ 50 * (1 / 2 ^ 60)" using t60 by (intro mult_left_mono) simp_all
  finally have Nt: "N * t \<le> 1 / 1024" by simp
  have "\<bar>x2 - p / 100 * N\<bar>
      \<le> (N * u + t) + N * (u + t) + N * ((100 * u + t) / 100)"
    unfolding split using b2 m1 m0 by linarith
  also have "\<dots> = 3 * (N * u) + N * t + N * t / 100 + t"
    by (simp add: field_simps)
  also have "\<dots> < 1 / 2" using Nu Nt t60 t0 N0 by simp
  finally show ?thesis by (simp add: x2_def x1_def p0_def N_def)
qed

lemma ceiling_close:
  fixes a b :: rat
  assumes "\<bar>a - b\<bar> < 1 / 2"
  shows "\<lceil>b\<rceil> - 1 \<le> \<lceil>a\<rceil>" and "\<lceil>a\<rceil> \<le> \<lceil>b\<rceil> + 1"
proof -
  have "a \<le> b + 1" using assms by linarith
  then have "\<lceil>a\<rceil> \<le> \<lceil>b + 1\<rceil>" by (rule ceiling_mono)
  then show "\<lceil>a\<rceil> \<le> \<lceil>b\<rceil> + 1" by simp
  have "b \<le> a + 1" using assms by linarith
  then have "\<lceil>b\<rceil> \<le> \<lceil>a + 1\<rceil>" by (rule ceiling_mono)
  then show "\<lceil>b\<rceil> - 1 \<le> \<lceil>a\<rceil>" by simp
qed

text \<open>Rounding next to a half, and the threshold of overflow.\<close>

lemma rhe_lt_half:
  assumes "y < of_int z - 1 / 2"
  shows "round_half_even y < z"
proof (cases "\<lfloor>y\<rfloor> < z - 1")
  case True
  have "round_half_even y \<le> \<lfloor>y\<rfloor> + 1" by (simp add: round_half_even_def)
  with True show ?thesis by simp
next
  case False
  have "y < of_int z" using assms by simp
  then have "\<lfloor>y\<rfloor> < z" by (simp add: floor_less_iff)
  with False have f: "\<lfloor>y\<rfloor> = z - 1" by simp
  then have "y - of_int \<lfloor>y\<rfloor> < 1 / 2" using assms by simp
  then show ?thesis using f by (simp add: round_half_even_def)
qed

lemma rhe_tie_up:
  assumes "of_int z - 1 / 2 \<le> y" "even z"
  shows "z \<le> round_half_even y"
proof (cases "of_int z \<le> y")
  case True
  then show ?thesis by (rule rhe_ge)
next
  case False
  then have "y < of_int z" by simp
  then have "\<lfloor>y\<rfloor> < z" by (simp add: floor_less_iff)
  moreover have "of_int (z - 1) \<le> y" using assms(1) by simp
  then have "z - 1 \<le> \<lfloor>y\<rfloor>" by (simp only: le_floor_iff)
  ultimately have f: "\<lfloor>y\<rfloor> = z - 1" by simp
  then have o: "odd \<lfloor>y\<rfloor>" using assms(2) by simp
  have "1 / 2 \<le> y - of_int \<lfloor>y\<rfloor>" using assms(1) f by simp
  then have "round_half_even y = \<lfloor>y\<rfloor> + 1" using o by (simp add: round_half_even_def)
  with f show ?thesis by simp
qed

text \<open>The largest float is \<open>2^1024 - 2^971\<close>; a quotient overflows from half a unit above it.\<close>

lemma rnd_overflow_iff:
  assumes "0 \<le> q"
  shows "(rnd q < 2 ^ 1024) = (q < 2 ^ 1024 - 2 ^ 970)"
proof -
  define P :: rat where "P = 2 powi 971"
  have P0: "0 < P" by (simp add: P_def)
  have e1: "(2 :: rat) ^ 1024 = 2 ^ 53 * P" and e2: "(2 :: rat) ^ 970 = P / 2"
    and e3: "(2 :: rat) powi 1023 = 2 ^ 52 * P" and e4: "(2 :: rat) powi 1024 = 2 ^ 53 * P"
    by (simp_all add: P_def)
  consider "q < 2 powi 1023" | "2 powi 1023 \<le> q" "q < 2 powi 1024" | "2 powi 1024 \<le> q"
    by linarith
  then show ?thesis
  proof cases
    case 1
    have "rnd q \<le> 2 powi 1023"
    proof (cases "q = 0")
      case True
      then show ?thesis by simp
    next
      case False
      with assms have "0 < q" by simp
      then show ?thesis using 1 by (intro rnd_le_pow2) simp_all
    qed
    then have "rnd q < 2 ^ 1024" unfolding e1 e3 using P0 by simp
    moreover have "q < 2 ^ 1024 - 2 ^ 970" using 1 unfolding e1 e2 e3 using P0 by simp
    ultimately show ?thesis by simp
  next
    case 2
    define y where "y = q / P"
    have q: "q = y * P" using P0 by (simp add: y_def)
    have "q < 2 powi (1023 + 1)" using 2(2) by simp
    with 2(1) have "rnd q = of_int (round_half_even (q / 2 powi (1023 - 52))) * 2 powi (1023 - 52)"
      by (intro rnd_normal) simp_all
    then have r: "rnd q = of_int (round_half_even y) * P" by (simp add: y_def P_def)
    have "(rnd q < 2 ^ 1024) = (of_int (round_half_even y) * P < 2 ^ 53 * P)"
      unfolding e1 r ..
    also have "\<dots> = ((of_int (round_half_even y) :: rat) < 2 ^ 53)"
      using P0 by (simp only: mult_less_cancel_right_pos)
    also have "\<dots> = ((of_int (round_half_even y) :: rat) < of_int (2 ^ 53))" by simp
    also have "\<dots> = (round_half_even y < 2 ^ 53)" by (simp only: of_int_less_iff)
    finally have a: "(rnd q < 2 ^ 1024) = (round_half_even y < 2 ^ 53)" .
    have "(q < 2 ^ 1024 - 2 ^ 970) = (y * P < (2 ^ 53 - 1 / 2) * P)"
      unfolding e1 e2 q by (simp add: algebra_simps)
    also have "\<dots> = (y < 2 ^ 53 - 1 / 2)"
      using P0 by (simp only: mult_less_cancel_right_pos)
    finally have b: "(q < 2 ^ 1024 - 2 ^ 970) = (y < 2 ^ 53 - 1 / 2)" .
    have "(round_half_even y < 2 ^ 53) = (y < 2 ^ 53 - 1 / 2)"
    proof
      assume h: "round_half_even y < 2 ^ 53"
      show "y < 2 ^ 53 - 1 / 2"
      proof (rule ccontr)
        assume "\<not> y < 2 ^ 53 - 1 / 2"
        then have "of_int (2 ^ 53) - 1 / 2 \<le> y" by simp
        then have "2 ^ 53 \<le> round_half_even y" by (rule rhe_tie_up) simp
        with h show False by simp
      qed
    next
      assume "y < 2 ^ 53 - 1 / 2"
      then have "y < of_int (2 ^ 53) - 1 / 2" by simp
      then show "round_half_even y < 2 ^ 53" by (rule rhe_lt_half)
    qed
    with a b show ?thesis by simp
  next
    case 3
    have "(0 :: rat) < 2 powi 1024" by simp
    then have "0 < q" using 3 by (rule less_le_trans)
    then have "2 powi 1024 \<le> rnd q" using 3 by (rule rnd_ge_pow2) simp
    then have "\<not> rnd q < 2 ^ 1024" unfolding e1 e4 by simp
    moreover have "\<not> q < 2 ^ 1024 - 2 ^ 970" using 3 unfolding e1 e2 e4 using P0 by simp
    ultimately show ?thesis by simp
  qed
qed

text \<open>\<^verbatim>\<open>d / a\<close> for \<open>d \<ge> 0\<close> and \<open>a > 0\<close>: a float or an overflow.\<close>

lemma int_truediv_cases:
  assumes "0 \<le> d" "0 < a"
  shows "d < (2 ^ 1024 - 2 ^ 970) * a \<Longrightarrow> int_truediv d a = Inr (rnd (of_int d / of_int a))"
    and "(2 ^ 1024 - 2 ^ 970) * a \<le> d \<Longrightarrow> int_truediv d a = Inl OverflowError"
proof -
  define q :: rat where "q = of_int d / of_int a"
  have ar: "(0::rat) < of_int a" using assms(2) by simp
  have q0: "0 \<le> q" using assms by (simp add: q_def)
  have lo: "0 \<le> rnd q" using q0 by (rule rnd_nonneg)
  have "(d < (2 ^ 1024 - 2 ^ 970) * a)
      = ((of_int d :: rat) < of_int ((2 ^ 1024 - 2 ^ 970) * a))"
    by (simp only: of_int_less_iff)
  also have "\<dots> = ((of_int d :: rat) < (2 ^ 1024 - 2 ^ 970) * of_int a)" by simp
  also have "\<dots> = (q < 2 ^ 1024 - 2 ^ 970)"
    using ar unfolding q_def by (simp only: pos_divide_less_eq)
  also have "\<dots> = (rnd q < 2 ^ 1024)" using rnd_overflow_iff [OF q0] by simp
  finally have iff: "(d < (2 ^ 1024 - 2 ^ 970) * a) = (rnd q < 2 ^ 1024)" .
  show "int_truediv d a = Inr (rnd (of_int d / of_int a))" if "d < (2 ^ 1024 - 2 ^ 970) * a"
  proof -
    from that iff have "rnd q < 2 ^ 1024" by simp
    with lo have "to_float q = Finite (rnd q)" by (intro to_float_finite) simp_all
    then show ?thesis using assms(2) by (simp add: int_truediv_def q_def)
  qed
  show "int_truediv d a = Inl OverflowError" if "(2 ^ 1024 - 2 ^ 970) * a \<le> d"
  proof -
    from that iff have "2 ^ 1024 \<le> rnd q" by simp
    then have "to_float q = PosInf" by (simp add: to_float_def)
    then show ?thesis using assms(2) by (simp add: int_truediv_def q_def)
  qed
qed

section \<open>Sequencing of calls\<close>

lemma bind_lift_Inr [simp]: "bind (lift (Inr x)) f = f x"
  by (simp add: bind_def lift_def split: prod.splits)

lemma bind_lift_Inl [simp]: "bind (lift (Inl e)) f = ([], Inl e)"
  by (simp add: bind_def lift_def)

lemma bind_ret [simp]: "bind (ret x) f = f x"
  by (simp add: bind_def ret_def split: prod.splits)

lemma bind_print [simp]: "bind (print m) f = (m # fst (f ()), snd (f ()))"
  by (simp add: bind_def print_def split: prod.splits)

lemma bind_raised [simp]: "bind (out, Inl e) f = (out, Inl e)"
  by (simp add: bind_def)

lemma bind_returned [simp]: "bind (out, Inr x) f = (out @ fst (f x), snd (f x))"
  by (simp add: bind_def split: prod.splits)

lemma snd_bind: "snd (bind m f) = (case snd m of Inl e \<Rightarrow> Inl e | Inr x \<Rightarrow> snd (f x))"
  by (cases m) (auto simp: bind_def split: sum.splits prod.splits)


lemma res_parts [simp]:
  "fst (ret x) = []" "snd (ret x) = Inr x"
  "fst (print m) = [m]" "snd (print m) = Inr ()"
  "fst (lift r) = []" "snd (lift r) = r"
  by (simp_all add: ret_def print_def lift_def)

lemma snd_bind_Inr_iff:
  "(snd (bind m f) = Inr y) = (\<exists>x. snd m = Inr x \<and> snd (f x) = Inr y)"
  by (cases m) (auto simp: bind_def split: sum.splits prod.splits)

section \<open>Evaluating the model on concrete inputs\<close>

lemmas rnd_eval = round_half_even_def floor_numeral_div_rat

lemma scenario_A_reference: "reference (sort [1 .. 100]) ''99.000000'' = Inr (99, 98, 99)"
proof -
  have pf: "py_float ''99.000000'' = Inr (Finite 99)"
    using to_float_percent(1) [of 99] rnd_of_nat [of 99] by (simp add: parse_defs)
  have r1: "rnd (99 / 100) = 4458563631096791 / 4503599627370496"
    by (simp add: rnd_normal [where k = "- 1"] rnd_eval)
  have r2: "rnd (rnd (99 / 100) * 100) = 99"
    by (simp add: r1 rnd_normal [where k = 6] rnd_eval)
  have "rank_of ''99.000000'' 100 = Inr \<lceil>rnd (rnd (99 / 100) * of_nat 100)\<rceil>"
    using pf by (intro rank_of_bounds(1)) simp_all
  then have "rank_of ''99.000000'' 100 = Inr 99" by (simp add: r2)
  then show ?thesis by (simp add: reference_def py_index_def)
qed

lemma similar_100_99: "similar 100 99 = Inr False"
  using similar_exact [of 99 100] by simp

lemma ceiling_numeral_div_rat:
  "\<lceil>(numeral a / numeral b :: rat)\<rceil> = - (- numeral a div numeral b)"
proof -
  have "\<lfloor>(of_int (- numeral a) / of_int (numeral b) :: rat)\<rfloor> = - numeral a div numeral b"
    by (rule floor_divide_of_int_eq)
  then show ?thesis by (simp add: ceiling_def)
qed

lemma reference_in_range:
  assumes "latencies \<noteq> []" "length latencies < 2 ^ 53"
    "py_float label = Inr (Finite x)" "0 \<le> x" "x \<le> 100"
  shows "reference latencies label =
      Inr (\<lceil>rnd (rnd (x / 100) * of_nat (length latencies))\<rceil>,
           max (\<lceil>rnd (rnd (x / 100) * of_nat (length latencies))\<rceil> - 1) 0,
           latencies ! nat (max (\<lceil>rnd (rnd (x / 100) * of_nat (length latencies))\<rceil> - 1) 0))"
    and "nat (max (\<lceil>rnd (rnd (x / 100) * of_nat (length latencies))\<rceil> - 1) 0)
      < length latencies"
proof -
  define rank where "rank = \<lceil>rnd (rnd (x / 100) * of_nat (length latencies))\<rceil>"
  note b = rank_of_bounds [OF assms(3,4,5,2), folded rank_def]
  have n0: "0 < length latencies" using assms(1) by simp
  show "nat (max (\<lceil>rnd (rnd (x / 100) * of_nat (length latencies))\<rceil> - 1) 0)
      < length latencies"
    using b(2,3) n0 unfolding rank_def [symmetric] by (simp add: max_def) linarith
  have "(if 0 < rank then rank - 1 else 0) = max (rank - 1) 0" by (simp add: max_def)
  moreover have "0 \<le> max (rank - 1) 0" "max (rank - 1) 0 < int (length latencies)"
    using b(2,3) n0 by (simp_all add: max_def)
  ultimately show "reference latencies label =
      Inr (\<lceil>rnd (rnd (x / 100) * of_nat (length latencies))\<rceil>,
           max (\<lceil>rnd (rnd (x / 100) * of_nat (length latencies))\<rceil> - 1) 0,
           latencies ! nat (max (\<lceil>rnd (rnd (x / 100) * of_nat (length latencies))\<rceil> - 1) 0))"
    unfolding rank_def [symmetric] using b(1)
    by (simp add: reference_def py_index_def Let_def)
qed

section \<open>The cross-encoding loop\<close>

lemma terse_loop_verdict:
  "list_all (field_in_domain jsondata) terse \<Longrightarrow>
   snd (terse_loop terse jsondata retval) = Inr (retval \<and> list_all (field_exact jsondata) terse)"
proof (induction terse arbitrary: retval)
  case Nil
  then show ?case by (simp add: ret_def)
next
  case (Cons lat rest)
  from Cons.prems have dom: "field_in_domain jsondata lat"
    and rest: "list_all (field_in_domain jsondata) rest" by simp_all
  from dom obtain pct terse_val v where p: "parse_field lat = Inr (pct, terse_val)"
    and m: "map_of jsondata pct = Some v" and v: "0 \<le> v" "v < 2 ^ 53"
    by (auto simp: field_in_domain_def split: sum.splits option.splits)
  note t = truediv_1000_floor [OF v]
  have j: "json_micro jsondata pct = Inr (v, v div 1000)"
    using m t by (simp add: json_micro_def)
  have e: "field_exact jsondata lat = (terse_val = v div 1000)"
    using p m by (simp add: field_exact_def)
  show ?case
    using Cons.IH [OF rest] p j e by (auto simp: snd_bind)
qed

lemma scenario_C_field: "parse_field ''99.000000%=1234'' = Inr (''99.000000'', 1234)"
  by (simp add: parse_field_def py_index_def parse_defs)

lemma scenario_C_field2: "parse_field ''99.000000%=1235'' = Inr (''99.000000'', 1235)"
  by (simp add: parse_field_def py_index_def parse_defs)

section \<open>The offsets tried by the report parser\<close>

lemma try_offsets_find:
  "try_offsets loads lines offs =
     (case List.find (\<lambda>i. loads (join_lines (drop i lines)) \<noteq> None) offs of
        None \<Rightarrow> (False, Str [])
      | Some i \<Rightarrow>
          (case loads (join_lines (drop i lines)) of
             Some json_data \<Rightarrow> (True, Doc json_data)
           | None \<Rightarrow> (False, Str [])))"
  by (induction offs) (auto split: option.splits)

lemma try_offsets_fails_iff:
  "(try_offsets loads lines offs = (False, Str []))
     = list_all (\<lambda>i. loads (join_lines (drop i lines)) = None) offs"
  by (induction offs) (auto split: option.splits)

section \<open>The three histogram checks\<close>

lemma py_min_Min: "keys \<noteq> [] \<Longrightarrow> py_min keys = Inr (Min (set keys))"
  using Min.set_eq_fold [of "hd keys" "tl keys"] by (cases keys) (simp_all add: py_min_def)

lemma py_max_Max: "keys \<noteq> [] \<Longrightarrow> py_max keys = Inr (Max (set keys))"
  using Max.set_eq_fold [of "hd keys" "tl keys"] by (cases keys) (simp_all add: py_max_def)

lemma py_min_empty [simp]: "py_min [] = Inl ValueError"
  by (simp add: py_min_def)

lemma check_jsonplus_evaluated:
  assumes "bins jsondata = Some b" "map_err py_int (map fst b) = Inr keys" "keys \<noteq> []"
    "similar (stat_min jsondata) (Min (set keys)) = Inr ok_min"
    "similar (stat_max jsondata) (Max (set keys)) = Inr ok_max"
  shows "check_jsonplus jsondata =
     ((if ok_min then [] else [Min_mismatch (stat_min jsondata) (Min (set keys))]) @
      (if ok_max then [] else [Max_mismatch (stat_max jsondata) (Max (set keys))]) @
      (if sum_list (map snd b) = stat_N jsondata then []
       else [Size_mismatch (stat_N jsondata) (sum_list (map snd b))]),
      Inr (ok_min \<and> ok_max \<and> sum_list (map snd b) = stat_N jsondata))"
  using assms
  by (simp add: check_jsonplus_def py_min_Min py_max_Max ret_def)

text \<open>
  With keys between 1 and \<open>2^53\<close> the two comparisons decide the exact relative error.
\<close>

lemma check_jsonplus_exact:
  assumes "bins jsondata = Some b" "map_err py_int (map fst b) = Inr keys" "keys \<noteq> []"
    "0 < Min (set keys)" "Max (set keys) < 2 ^ 53"
    "\<bar>stat_min jsondata\<bar> < 2 ^ 1023" "\<bar>stat_max jsondata\<bar> < 2 ^ 1023"
  shows "check_jsonplus jsondata =
     ((if within_tolerance (stat_min jsondata) (Min (set keys)) then []
       else [Min_mismatch (stat_min jsondata) (Min (set keys))]) @
      (if within_tolerance (stat_max jsondata) (Max (set keys)) then []
       else [Max_mismatch (stat_max jsondata) (Max (set keys))]) @
      (if sum_list (map snd b) = stat_N jsondata then []
       else [Size_mismatch (stat_N jsondata) (sum_list (map snd b))]),
      Inr (within_tolerance (stat_min jsondata) (Min (set keys))
           \<and> within_tolerance (stat_max jsondata) (Max (set keys))
           \<and> sum_list (map snd b) = stat_N jsondata))"
proof -
  have "Min (set keys) \<le> Max (set keys)" using assms(3) by (intro Min_le Max_in) simp_all
  then have lo: "Min (set keys) < 2 ^ 53" and hi: "0 < Max (set keys)"
    using assms(4,5) by simp_all
  have s1: "similar (stat_min jsondata) (Min (set keys))
      = Inr (within_tolerance (stat_min jsondata) (Min (set keys)))"
    using similar_exact [OF assms(4) lo assms(6)] assms(4) by (simp add: within_tolerance_def)
  have s2: "similar (stat_max jsondata) (Max (set keys))
      = Inr (within_tolerance (stat_max jsondata) (Max (set keys)))"
    using similar_exact [OF hi assms(5) assms(7)] hi by (simp add: within_tolerance_def)
  from check_jsonplus_evaluated [OF assms(1,2,3) s1 s2] show ?thesis .
qed

lemma check_jsonplus_true_iff:
  assumes "bins jsondata = Some b" "map_err py_int (map fst b) = Inr keys" "keys \<noteq> []"
    "0 < Min (set keys)" "Max (set keys) < 2 ^ 53"
    "\<bar>stat_min jsondata\<bar> < 2 ^ 1023" "\<bar>stat_max jsondata\<bar> < 2 ^ 1023"
  shows "(snd (check_jsonplus jsondata) = Inr True) = histogram_consistent jsondata"
  using check_jsonplus_exact [OF assms] assms(1,2,3)
  by (simp add: histogram_consistent_def)

text \<open>A smallest key of zero: the first comparison divides by it.\<close>

lemma check_jsonplus_zero_key:
  assumes "bins jsondata = Some b" "map_err py_int (map fst b) = Inr keys" "keys \<noteq> []"
    "Min (set keys) = 0"
  shows "check_jsonplus jsondata = ([], Inl ZeroDivisionError)"
  using assms by (simp add: check_jsonplus_def py_min_Min py_max_Max similar_zero)

text \<open>A quotient that rounds down to the bound: accepted above the tolerance.\<close>

lemma similar_rounds_to_bound: "similar (2 ^ 60 + 2 ^ 53 + 1) (2 ^ 60) = Inr True"
proof -
  have "int_truediv (2 ^ 53 + 1) (2 ^ 60) = Inr (rnd (of_int (2 ^ 53 + 1) / of_int (2 ^ 60)))"
    by (rule int_truediv_finite) simp_all
  moreover have "rnd ((2 ^ 53 + 1) / 2 ^ 60) = 1 / 128"
    by (simp add: rnd_normal [where k = "- 7"] rnd_eval)
  ultimately show ?thesis by (simp add: similar_def int_truediv_1_128)
qed

section \<open>The loops of the direction validator\<close>

lemma ptile_loop_snd:
  "snd (ptile_loop lat latencies ptiles t) =
     (case snd (ptile_loop lat latencies ptiles True) of
        Inl e \<Rightarrow> Inl e | Inr b \<Rightarrow> Inr (t \<and> b))"
proof (induction ptiles arbitrary: t)
  case Nil
  then show ?case by simp
next
  case (Cons a ptiles)
  show ?case
  proof (cases t)
    case True
    then show ?thesis by (simp split: sum.splits)
  next
    case False
    show ?thesis
      using Cons.IH [of False]
      by (auto simp: False snd_bind split: sum.splits)
  qed
qed





lemma ptile_loop_True:
  "snd (ptile_loop lat latencies ptiles t) = Inr True \<Longrightarrow> t"
  using ptile_loop_snd [of lat latencies ptiles t] by (auto split: sum.splits)

lemma compare_samples_True:
  "snd (compare_samples read_log jsondata stats ddir unified lat this_iter) = Inr True
     \<Longrightarrow> this_iter"
  by (auto simp: compare_samples_def snd_bind_Inr_iff Let_def
      split: option.splits if_splits sum.splits dest: ptile_loop_True)

lemma types_of_cases:
  "types_of slat clat tlat lat = Inr b \<Longrightarrow>
     lat = ''slat'' \<and> b = slat \<or> lat = ''clat'' \<and> b = clat \<or> lat = ''lat'' \<and> b = tlat"
  by (auto simp: types_of_def split: if_splits)

lemma types_of_names:
  "types_of slat clat tlat lat = Inr b \<Longrightarrow> lat \<in> set [''slat'', ''clat'', ''lat'']"
  by (auto dest: types_of_cases)

lemma section_of_stats:
  "types_of slat clat tlat lat = Inr b \<Longrightarrow>
     section_of jsondata (lat @ ''_ns'') = Inr (stats_of jsondata lat)"
  by (auto dest!: types_of_cases simp: section_of_def stats_of_def)

text \<open>A disabled type: one message, and \<^verbatim>\<open>continue\<close>.\<close>

lemma check_lat_disabled:
  assumes "types_of slat clat tlat lat = Inr False"
  shows "check_lat read_log jsondata ddir slat clat tlat plus' unified lat =
     ([if percentile (stats_of jsondata lat) \<noteq> None
       then Unexpected_percentiles lat else Percentiles_skipped lat], Inr None)"
  using assms section_of_stats [OF assms, of jsondata]
  by (simp add: check_lat_def)

lemma check_lat_enabled:
  assumes "types_of slat clat tlat lat = Inr True"
  shows "check_lat read_log jsondata ddir slat clat tlat plus' unified lat =
     bind (gate (stats_of jsondata lat) plus' lat) (\<lambda>this_iter.
     bind (compare_samples read_log jsondata (stats_of jsondata lat) ddir unified lat this_iter)
      (\<lambda>this_iter. ret (Some this_iter)))"
  using assms section_of_stats [OF assms, of jsondata]
  by (simp add: check_lat_def)

lemma gate_encoding_mismatch:
  "\<not> plus' \<and> bins stats \<noteq> None \<or> plus' \<and> bins stats = None \<Longrightarrow>
     snd (gate stats plus' lat) = Inr False"
  by (auto simp: gate_def snd_bind)

lemma gate_percentile_absent:
  "percentile stats = None \<Longrightarrow> snd (gate stats plus' lat) \<noteq> Inr True"
  by (auto simp: gate_def snd_bind split: sum.splits)

text \<open>Once the verdict is False it stays False; a type that fails makes it False.\<close>

lemma lat_loop_False:
  "snd (lat_loop read_log jsondata ddir slat clat tlat plus' unified lats False) \<noteq> Inr True"
proof (induction lats)
  case Nil
  then show ?case by simp
next
  case (Cons lat lats)
  then show ?case by (auto simp: snd_bind_Inr_iff split: option.splits)
qed

lemma lat_loop_failed_type:
  assumes "lat \<in> set lats"
    and "\<And>b. snd (check_lat read_log jsondata ddir slat clat tlat plus' unified lat) = Inr b
           \<Longrightarrow> b = Some False"
  shows "snd (lat_loop read_log jsondata ddir slat clat tlat plus' unified lats retval)
           \<noteq> Inr True"
  using assms(1)
proof (induction lats arbitrary: retval)
  case Nil
  then show ?case by simp
next
  case (Cons x lats)
  show ?case
  proof (cases "x = lat")
    case True
    show ?thesis
      using assms(2) lat_loop_False [of read_log jsondata ddir slat clat tlat plus' unified lats]
      by (auto simp: True snd_bind_Inr_iff split: option.splits)
  next
    case False
    with Cons.prems have "lat \<in> set lats" by simp
    from Cons.IH [OF this] show ?thesis
      by (auto simp: snd_bind_Inr_iff split: option.splits)
  qed
qed

lemma check_lat_failed:
  assumes "types_of slat clat tlat lat = Inr True"
    and "snd (gate (stats_of jsondata lat) plus' lat) \<noteq> Inr True
         \<or> (\<forall>t. snd (compare_samples read_log jsondata (stats_of jsondata lat) ddir unified
                        lat t) \<noteq> Inr True)"
    and "snd (check_lat read_log jsondata ddir slat clat tlat plus' unified lat) = Inr b"
  shows "b = Some False"
  using assms(2,3) compare_samples_True
  unfolding check_lat_enabled [OF assms(1)]
  by (cases b) (auto simp: snd_bind_Inr_iff)


section \<open>The small report, evaluated\<close>

lemma load_sample_log_reads: "load_latencies sample_log 0 False = Inr [10, 20]"
  by (simp add: sample_log_def row_selected_def row_latency_def py_index_def parse_defs)

lemma load_sample_log_writes: "load_latencies sample_log 1 False = Inr [30]"
  by (simp add: sample_log_def row_selected_def row_latency_def py_index_def parse_defs)

lemma rank_50_of_2: "rank_of ''50.000000'' 2 = Inr 1"
proof -
  have pf: "py_float ''50.000000'' = Inr (Finite 50)"
    using to_float_percent(1) [of 50] rnd_of_nat [of 50] by (simp add: parse_defs)
  have r1: "rnd (1 / 2) = 1 / 2"
    by (simp add: rnd_normal [where k = "- 1"] rnd_eval)
  have r2: "rnd 1 = 1" using rnd_of_nat [of 1] by simp
  have "rank_of ''50.000000'' 2 = Inr \<lceil>rnd (rnd (50 / 100) * of_nat 2)\<rceil>"
    using pf by (intro rank_of_bounds(1)) simp_all
  then show ?thesis by (simp add: r1 r2)
qed

lemma rank_99_of_2: "rank_of ''99.000000'' 2 = Inr 2"
proof -
  have pf: "py_float ''99.000000'' = Inr (Finite 99)"
    using to_float_percent(1) [of 99] rnd_of_nat [of 99] by (simp add: parse_defs)
  have r1: "rnd (99 / 100) = 4458563631096791 / 4503599627370496"
    by (simp add: rnd_normal [where k = "- 1"] rnd_eval)
  have r2: "rnd (rnd (99 / 100) * 2) = 4458563631096791 / 2251799813685248"
    by (simp add: r1 rnd_normal [where k = 0] rnd_eval)
  have "rank_of ''99.000000'' 2 = Inr \<lceil>rnd (rnd (99 / 100) * of_nat 2)\<rceil>"
    using pf by (intro rank_of_bounds(1)) simp_all
  then show ?thesis by (simp add: r2 ceiling_numeral_div_rat)
qed

lemma int_truediv_zero: "0 < a \<Longrightarrow> int_truediv 0 a = Inr 0"
  using int_truediv_finite [of 0 a] by simp

lemma reference_50_of_reads: "reference [10, 20] ''50.000000'' = Inr (1, 0, 10)"
proof -
  have l: "length [10, 20 :: int] = 2" by simp
  show ?thesis unfolding reference_def l rank_50_of_2 by (simp add: py_index_def)
qed

lemma reference_99_of_reads: "reference [10, 20] ''99.000000'' = Inr (2, 1, 20)"
proof -
  have l: "length [10, 20 :: int] = 2" by simp
  show ?thesis unfolding reference_def l rank_99_of_2 by (simp add: py_index_def)
qed

lemma check_sample_ptiles:
  "ptile_loop lat [10, 20] sample_ptiles t = ([], Inr t)"
  by (simp add: sample_ptiles_def check_ptile_def reference_50_of_reads reference_99_of_reads
      int_truediv_zero similar_refl ret_def)

lemma compare_sample_reads:
  "total_ios jsondata = 2 \<Longrightarrow>
     compare_samples (\<lambda>_. Some sample_log) jsondata reads_stats 0 False lat t = ([], Inr t)"
  by (simp add: compare_samples_def load_sample_log_reads reads_stats_def check_sample_ptiles)

lemma gate_reads_stats: "gate reads_stats False lat = ([], Inr True)"
  by (simp add: gate_def reads_stats_def ret_def)

lemma sample_stats_fields:
  "percentile reads_stats = Some sample_ptiles" "bins reads_stats = None"
  "percentile off_stats = None" "bins off_stats = None"
  by (simp_all add: reads_stats_def off_stats_def)

lemma sample_labels_in_range:
  "label_in_range ''50.000000''" "label_in_range ''99.000000''"
proof -
  have "py_float ''50.000000'' = Inr (Finite 50)"
    using to_float_percent(1) [of 50] rnd_of_nat [of 50] by (simp add: parse_defs)
  then show "label_in_range ''50.000000''" by (simp add: label_in_range_def)
  have "py_float ''99.000000'' = Inr (Finite 99)"
    using to_float_percent(1) [of 99] rnd_of_nat [of 99] by (simp add: parse_defs)
  then show "label_in_range ''99.000000''" by (simp add: label_in_range_def)
qed

lemma sample_log_parses: "rows_parse sample_log"
  by (simp add: rows_parse_def sample_log_def row_latency_def py_index_def parse_defs)

lemma sample_ptiles_comparable: "ptiles_comparable [10, 20] sample_ptiles"
  by (simp add: ptiles_comparable_def sample_ptiles_def sample_labels_in_range comparable_def)

lemma sample_type_wellformed:
  "percentile (stats_of jsondata lat) = Some sample_ptiles \<Longrightarrow>
     type_wellformed (\<lambda>_. Some sample_log) jsondata 0 False False lat"
  by (simp add: type_wellformed_def sample_log_parses load_sample_log_reads
      sample_ptiles_comparable)

section \<open>Well-formed inputs give a verdict\<close>

lemma comparable_returns:
  assumes "comparable estimate actual"
  shows "\<exists>delta. int_truediv \<bar>estimate - actual\<bar> actual = Inr delta"
    and "\<exists>ok. similar estimate actual = Inr ok"
proof -
  from assms have a: "0 < actual"
    and d: "\<bar>estimate - actual\<bar> < (2 ^ 1024 - 2 ^ 970) * actual"
    by (simp_all add: comparable_def)
  have t: "int_truediv \<bar>estimate - actual\<bar> actual
      = Inr (rnd (of_int \<bar>estimate - actual\<bar> / of_int actual))"
    using _ a d by (rule int_truediv_cases(1)) simp
  then show "\<exists>delta. int_truediv \<bar>estimate - actual\<bar> actual = Inr delta" by blast
  from t show "\<exists>ok. similar estimate actual = Inr ok"
    by (simp add: similar_def int_truediv_1_128)
qed

lemma check_jsonplus_returns:
  assumes "bins_evaluable stats"
  shows "\<exists>ok. snd (check_jsonplus stats) = Inr ok"
proof -
  from assms obtain b keys where b: "bins stats = Some b"
    and k: "map_err py_int (map fst b) = Inr keys" "keys \<noteq> []"
    and c1: "comparable (stat_min stats) (Min (set keys))"
    and c2: "comparable (stat_max stats) (Max (set keys))"
    by (auto simp: bins_evaluable_def split: option.splits sum.splits)
  from comparable_returns(2) [OF c1] obtain ok_min
    where s1: "similar (stat_min stats) (Min (set keys)) = Inr ok_min" by blast
  from comparable_returns(2) [OF c2] obtain ok_max
    where s2: "similar (stat_max stats) (Max (set keys)) = Inr ok_max" by blast
  from check_jsonplus_evaluated [OF b k s1 s2] show ?thesis by simp
qed


lemma check_ptile_returns:
  assumes "latencies \<noteq> []" "length latencies < 2 ^ 53" "label_in_range label"
    "list_all (comparable fio_val) latencies"
  shows "\<exists>ok. snd (check_ptile lat latencies (label, fio_val)) = Inr ok"
proof -
  from assms(3) obtain x where x: "py_float label = Inr (Finite x)" "0 \<le> x" "x \<le> 100"
    by (auto simp: label_in_range_def split: sum.splits pyfloat.splits)
  note r = reference_in_range [OF assms(1,2) x]
  define rank where "rank = \<lceil>rnd (rnd (x / 100) * of_nat (length latencies))\<rceil>"
  define v where "v = latencies ! nat (max (rank - 1) 0)"
  have "v \<in> set latencies" using r(2) by (simp add: v_def rank_def)
  with assms(4) have c: "comparable fio_val v" by (simp add: list_all_iff)
  from comparable_returns [OF c] obtain delta ok
    where "int_truediv \<bar>fio_val - v\<bar> v = Inr delta" "similar fio_val v = Inr ok" by blast
  with r(1) show ?thesis
    by (auto simp: check_ptile_def v_def rank_def snd_bind)
qed

lemma ptile_loop_returns_wellformed:
  assumes "ptiles_comparable latencies ptiles"
  shows "\<exists>b. snd (ptile_loop lat latencies ptiles t) = Inr b"
proof (cases "ptiles = []")
  case True
  then show ?thesis by simp
next
  case False
  with assms have ne: "latencies \<noteq> []" and len: "length latencies < 2 ^ 53"
    and all: "list_all (\<lambda>entry. label_in_range (fst entry)
                \<and> list_all (comparable (snd entry)) latencies) ptiles"
    by (auto simp: ptiles_comparable_def)
  from all show ?thesis
  proof (induction ptiles arbitrary: t)
    case Nil
    then show ?case by simp
  next
    case (Cons entry ptiles)
    obtain label fio_val where e: "entry = (label, fio_val)" by (cases entry)
    from Cons.prems e have "label_in_range label" "list_all (comparable fio_val) latencies"
      and rest: "list_all (\<lambda>entry. label_in_range (fst entry)
                \<and> list_all (comparable (snd entry)) latencies) ptiles"
      by simp_all
    from check_ptile_returns [OF ne len this(1,2)] obtain ok
      where ok: "snd (check_ptile lat latencies entry) = Inr ok" unfolding e by blast
    from Cons.IH [OF rest] ok show ?case by (simp add: snd_bind)
  qed
qed

lemma ptiles_comparable_sort:
  "ptiles_comparable latencies ptiles \<Longrightarrow> ptiles_comparable (sort latencies) ptiles"
proof -
  have "(sort latencies = []) = (latencies = [])" by (metis length_0_conv length_sort)
  then show "ptiles_comparable latencies ptiles \<Longrightarrow> ptiles_comparable (sort latencies) ptiles"
    by (auto simp: ptiles_comparable_def list_all_iff)
qed

lemma gate_returns:
  assumes "if plus' then bins stats = None \<or> bins_evaluable stats else True"
  shows "\<exists>t. snd (gate stats plus' lat) = Inr t"
proof (cases "plus' \<and> bins stats \<noteq> None")
  case True
  with assms have "bins_evaluable stats" by auto
  from check_jsonplus_returns [OF this] True show ?thesis
    by (auto simp: gate_def snd_bind)
next
  case False
  then show ?thesis by (auto simp: gate_def snd_bind)
qed

lemma compare_samples_returns:
  assumes "read_log lat = Some rows" "rows_parse rows"
    "load_latencies rows ddir unified = Inr latencies"
    "percentile stats = Some ptiles" "ptiles_comparable latencies ptiles"
  shows "\<exists>b. snd (compare_samples read_log jsondata stats ddir unified lat t) = Inr b"
proof -
  note c = ptiles_comparable_sort [OF assms(5)]
  from ptile_loop_returns_wellformed [OF c] assms(1,3,4) show ?thesis
    by (simp add: compare_samples_def snd_bind)
qed

lemma check_lat_returns:
  assumes "types_of slat clat tlat lat = Inr enabled"
    and "enabled \<Longrightarrow> type_wellformed read_log jsondata ddir plus' unified lat"
  shows "\<exists>r. snd (check_lat read_log jsondata ddir slat clat tlat plus' unified lat) = Inr r"
proof (cases enabled)
  case False
  with assms(1) show ?thesis by (simp add: check_lat_disabled)
next
  case True
  with assms have en: "types_of slat clat tlat lat = Inr True"
    and wf: "type_wellformed read_log jsondata ddir plus' unified lat" by simp_all
  from wf obtain ptiles rows latencies
    where p: "percentile (stats_of jsondata lat) = Some ptiles"
      and g: "if plus' then bins (stats_of jsondata lat) = None
                \<or> bins_evaluable (stats_of jsondata lat) else True"
      and r: "read_log lat = Some rows" "rows_parse rows"
      and l: "load_latencies rows ddir unified = Inr latencies"
      and c: "ptiles_comparable latencies ptiles"
    by (auto simp: type_wellformed_def split: option.splits sum.splits)
  from gate_returns [OF g] obtain t
    where t: "snd (gate (stats_of jsondata lat) plus' lat) = Inr t" by blast
  from compare_samples_returns [where read_log = read_log and lat = lat, OF r l p c] obtain b
    where "snd (compare_samples read_log jsondata (stats_of jsondata lat) ddir unified lat t)
             = Inr b" by blast
  with t show ?thesis by (simp add: check_lat_enabled [OF en] snd_bind)
qed

lemma lat_loop_returns:
  assumes "\<And>lat. lat \<in> set lats \<Longrightarrow>
      \<exists>r. snd (check_lat read_log jsondata ddir slat clat tlat plus' unified lat) = Inr r"
  shows "\<exists>b. snd (lat_loop read_log jsondata ddir slat clat tlat plus' unified lats retval)
           = Inr b"
  using assms
proof (induction lats arbitrary: retval)
  case Nil
  then show ?case by simp
next
  case (Cons lat lats)
  from Cons.prems [of lat] obtain r
    where r: "snd (check_lat read_log jsondata ddir slat clat tlat plus' unified lat) = Inr r"
    by auto
  have "\<And>retval. \<exists>b. snd (lat_loop read_log jsondata ddir slat clat tlat plus' unified lats
      retval) = Inr b"
    using Cons.IH Cons.prems by simp
  with r show ?case by (cases r) (simp_all add: snd_bind)
qed

lemma check_latencies_returns:
  assumes "report_wellformed read_log jsondata ddir slat clat tlat plus' unified"
  shows "\<exists>b. snd (check_latencies read_log jsondata ddir slat clat tlat plus' unified) = Inr b"
proof -
  have s: "\<exists>r. snd (check_lat read_log jsondata ddir slat clat tlat plus' unified ''slat'')
      = Inr r"
    using assms by (intro check_lat_returns [where enabled = slat])
      (simp_all add: types_of_def report_wellformed_def)
  have c: "\<exists>r. snd (check_lat read_log jsondata ddir slat clat tlat plus' unified ''clat'')
      = Inr r"
    using assms by (intro check_lat_returns [where enabled = clat])
      (simp_all add: types_of_def report_wellformed_def)
  have l: "\<exists>r. snd (check_lat read_log jsondata ddir slat clat tlat plus' unified ''lat'')
      = Inr r"
    using assms by (intro check_lat_returns [where enabled = tlat])
      (simp_all add: types_of_def report_wellformed_def)
  have "\<exists>b. snd (lat_loop read_log jsondata ddir slat clat tlat plus' unified
      [''slat'', ''clat'', ''lat''] True) = Inr b"
    using s c l by (intro lat_loop_returns) auto
  then show ?thesis by (simp add: check_latencies_def)
qed



section \<open>Exceptions leave the checks\<close>











subsection \<open>The log with a zero sample, evaluated\<close>







section \<open>The claims\<close>

subsection \<open>C1: the rank-based percentile estimator\<close>

text \<open>
  C1, as stated, says that for every non-empty sample sequence and every percentile \<open>p\<close> in
  (0, 100] the reference value is the element of the sorted samples at index
  \<open>max (ceil (p / 100 * n) - 1) 0\<close>. The script computes the product in floats: for
  \<open>p = 28\<close> and the 25 samples 1..25 the product is just above 7, the rank is 8 and the
  reference value is 8, where the stated formula gives rank 7 and the value 7.
\<close>

theorem nearest_rank_float_counterexample:
  "reference (sort [1 .. 25]) ''28.00'' = Inr (8, 7, 8)
   \<and> sort [1 .. 25] ! nat (max (\<lceil>(28 :: rat) / 100 * 25\<rceil> - 1) 0) = (7 :: int)"
proof -
  have pf: "py_float ''28.00'' = Inr (Finite 28)"
    using to_float_percent(1) [of 28] rnd_of_nat [of 28] by (simp add: parse_defs)
  have r1: "rnd (7 / 25) = 1261007895663739 / 4503599627370496"
    by (simp add: rnd_normal [where k = "- 2"] rnd_eval)
  have r2: "rnd (rnd (7 / 25) * 25) = 7881299347898369 / 1125899906842624"
    by (simp add: r1 rnd_normal [where k = 2] rnd_eval)
  have "rank_of ''28.00'' 25 = Inr \<lceil>rnd (rnd (28 / 100) * of_nat 25)\<rceil>"
    using pf by (intro rank_of_bounds(1)) simp_all
  then have "rank_of ''28.00'' 25 = Inr 8" by (simp add: r2 ceiling_numeral_div_rat)
  then have "reference (sort [1 .. 25]) ''28.00'' = Inr (8, 7, 8)"
    by (simp add: reference_def py_index_def)
  moreover have "\<lceil>(28 :: rat) / 100 * 25\<rceil> = 7" by simp
  ultimately show ?thesis by simp
qed


text \<open>
  C1, amended: for every non-empty sample sequence of fewer than \<open>2^53\<close> samples and every
  label denoting a percentile \<open>p\<close> in (0, 100], the reference value is the element of the
  sorted samples at index \<open>max (rank - 1) 0\<close>, where \<open>rank\<close> is the ceiling of
  \<open>p / 100 * n\<close> evaluated in binary64 arithmetic (\<open>p\<close>, the quotient and the product each
  rounded to the nearest float); that index is within the sequence. Up to \<open>2^50\<close> samples
  that rank differs from the ceiling of the exact product by at most one.
\<close>

theorem reference_value_nearest_rank:
  assumes "latencies \<noteq> []" and "length latencies < 2 ^ 53"
    and "py_float label = Inr (to_float p)" and "0 < p" and "p \<le> 100"
  shows "reference (sort latencies) label =
      Inr (\<lceil>rnd (rnd (rnd p / 100) * of_nat (length latencies))\<rceil>,
           max (\<lceil>rnd (rnd (rnd p / 100) * of_nat (length latencies))\<rceil> - 1) 0,
           sort latencies
             ! nat (max (\<lceil>rnd (rnd (rnd p / 100) * of_nat (length latencies))\<rceil> - 1) 0))
    \<and> nat (max (\<lceil>rnd (rnd (rnd p / 100) * of_nat (length latencies))\<rceil> - 1) 0)
          < length latencies
    \<and> (length latencies \<le> 2 ^ 50 \<longrightarrow>
         \<bar>\<lceil>rnd (rnd (rnd p / 100) * of_nat (length latencies))\<rceil>
            - \<lceil>p / 100 * of_nat (length latencies)\<rceil>\<bar> \<le> 1)"
proof -
  have p0: "0 \<le> p" using assms(4) by simp
  note f = to_float_percent [OF p0 assms(5)]
  have l: "py_float label = Inr (Finite (rnd p))" using assms(3) f(1) by simp
  have s1: "sort latencies \<noteq> []" using assms(1) by (metis length_sort length_0_conv)
  have s2: "length (sort latencies) < 2 ^ 53" using assms(2) by simp
  have near: "\<bar>\<lceil>rnd (rnd (rnd p / 100) * of_nat (length latencies))\<rceil>
            - \<lceil>p / 100 * of_nat (length latencies)\<rceil>\<bar> \<le> 1"
    if "length latencies \<le> 2 ^ 50"
    using ceiling_close [OF float_product_close [OF p0 assms(5) that]] by linarith
  from reference_in_range [OF s1 s2 l f(2) f(3)] near show ?thesis by simp
qed

theorem reference_value_nearest_rank_witness:
  "[1 .. 25] \<noteq> [] \<and> length [1 .. 25 :: int] < 2 ^ 53
   \<and> py_float ''28.00'' = Inr (to_float 28) \<and> (0 :: rat) < 28 \<and> (28 :: rat) \<le> 100
   \<and> reference (sort [1 .. 25]) ''28.00'' =
        Inr (\<lceil>rnd (rnd (rnd 28 / 100) * 25)\<rceil>,
             max (\<lceil>rnd (rnd (rnd 28 / 100) * 25)\<rceil> - 1) 0,
             sort [1 .. 25] ! nat (max (\<lceil>rnd (rnd (rnd 28 / 100) * 25)\<rceil> - 1) 0))
   \<and> length [1 .. 25 :: int] \<le> 2 ^ 50
   \<and> \<bar>\<lceil>rnd (rnd (rnd 28 / 100) * 25)\<rceil> - \<lceil>(28 :: rat) / 100 * 25\<rceil>\<bar> \<le> 1"
proof -
  have pf: "py_float ''28.00'' = Inr (to_float 28)" by (simp add: parse_defs)
  have ne: "[1 .. 25 :: int] \<noteq> []" by simp
  have len: "length [1 .. 25 :: int] < 2 ^ 53" by simp
  from reference_value_nearest_rank [OF ne len pf] pf ne len show ?thesis by simp
qed

subsection \<open>C2: the tolerance comparator\<close>

text \<open>
  C2, as stated, says that for every \<open>actual > 0\<close> and every estimate \<open>similar\<close> returns
  True exactly when \<open>|estimate - actual| / actual \<le> 1/128\<close>. The quotient is a float:
  at \<open>actual = 2^60\<close> and \<open>estimate = actual + 2^53 + 1\<close> it rounds down to \<open>1/128\<close>
  and the comparison passes although the exact relative error is larger.
\<close>

theorem similar_tie_counterexample:
  "similar (2 ^ 60 + 2 ^ 53 + 1) (2 ^ 60) = Inr True
   \<and> \<not> (\<bar>of_int (2 ^ 60 + 2 ^ 53 + 1) - of_int (2 ^ 60)\<bar> / of_int (2 ^ 60) \<le> (1 / 128 :: rat))"
proof -
  have "int_truediv (2 ^ 53 + 1) (2 ^ 60) = Inr (rnd (of_int (2 ^ 53 + 1) / of_int (2 ^ 60)))"
    by (rule int_truediv_finite) simp_all
  moreover have "rnd ((2 ^ 53 + 1) / 2 ^ 60) = 1 / 128"
    by (simp add: rnd_normal [where k = "- 7"] rnd_eval)
  ultimately have "similar (2 ^ 60 + 2 ^ 53 + 1) (2 ^ 60) = Inr True"
    by (simp add: similar_def int_truediv_1_128)
  then show ?thesis by simp
qed


text \<open>
  C2, amended: for every \<open>actual\<close> with \<open>0 < actual < 2^53\<close> and every estimate of magnitude
  below \<open>2^1023\<close>, \<open>similar estimate actual\<close> returns True if and only if
  \<open>|estimate - actual| / actual \<le> 1/128\<close>; \<open>similar x x\<close> is True for every \<open>x > 0\<close>; for
  the samples 1..100 and the label 99.000000 the reference value is 99, a reported value
  of 100 fails and a reported value of 99 passes.
\<close>

theorem similar_relative_error_bound:
  "(0 < actual \<and> actual < 2 ^ 53 \<and> \<bar>estimate\<bar> < 2 ^ 1023 \<longrightarrow>
      similar estimate actual =
        Inr (\<bar>of_int estimate - of_int actual\<bar> / of_int actual \<le> (1 / 128 :: rat)))
   \<and> (0 < x \<longrightarrow> similar x x = Inr True)
   \<and> reference (sort [1 .. 100]) ''99.000000'' = Inr (99, 98, 99)
   \<and> similar 100 99 = Inr False
   \<and> similar 99 99 = Inr True"
  using similar_exact [of actual estimate] similar_refl [of x] similar_refl [of 99]
    scenario_A_reference similar_100_99
  by simp

theorem similar_relative_error_bound_witness:
  "0 < (128 :: int) \<and> (128 :: int) < 2 ^ 53 \<and> \<bar>129 :: int\<bar> < 2 ^ 1023
   \<and> similar 129 128 = Inr True \<and> similar 130 128 = Inr False
   \<and> 0 < (5 :: int) \<and> similar 5 5 = Inr True"
  using similar_relative_error_bound [of 128 129 5] similar_relative_error_bound [of 128 130 5]
  by simp

subsection \<open>C3: a reference value of zero\<close>

text \<open>
  C3, as stated, says that \<open>similar 0 0\<close> passes and that \<open>similar x 0\<close> signals a failure
  without raising. The division by \<open>actual\<close> raises in both cases.
\<close>

theorem similar_zero_policy_counterexample:
  "similar 0 0 = Inl ZeroDivisionError \<and> similar 1 0 = Inl ZeroDivisionError"
  by (simp add: similar_def int_truediv_def)

text \<open>
  C3, amended: when the reference value \<open>actual\<close> is zero, \<open>similar\<close> raises
  \<^verbatim>\<open>ZeroDivisionError\<close> for every estimate, zero included; it returns neither True nor
  False.
\<close>

theorem similar_zero_reference_raises: "similar estimate 0 = Inl ZeroDivisionError"
  by (rule similar_zero)

subsection \<open>C4: presence gating\<close>

text \<open>
  C4 says that \<open>check_latencies\<close> returns False when a disabled latency type has a
  \<^verbatim>\<open>percentile\<close> mapping and when an enabled one lacks it. The script evaluated on two
  such reports: with the disabled \<^verbatim>\<open>slat\<close> carrying percentiles it prints the message
  and returns True, because the \<^verbatim>\<open>continue\<close> of that branch skips the assignment to
  \<^verbatim>\<open>retval\<close>; with the enabled \<^verbatim>\<open>clat\<close> lacking percentiles it prints the message
  and then raises \<^verbatim>\<open>KeyError\<close> at \<^verbatim>\<open>jsondata[lat+'_ns']['percentile']\<close>.
\<close>

theorem presence_gating_failing_inputs:
  "check_latencies (\<lambda>_. Some sample_log)
      \<lparr>total_ios = 2, lat_ns = reads_stats, slat_ns = reads_stats, clat_ns = reads_stats\<rparr>
      0 False True True False False
    = ([Unexpected_percentiles ''slat'', Percentiles_match ''clat'', Percentiles_match ''lat''],
       Inr True)
   \<and> check_latencies (\<lambda>_. Some sample_log)
      \<lparr>total_ios = 2, lat_ns = reads_stats, slat_ns = off_stats, clat_ns = off_stats\<rparr>
      0 False True True False False
    = ([Percentiles_skipped ''slat'', Percentiles_not_found ''clat''],
       Inl (KeyError ''percentile''))"
proof -
  have d: "types_of False True True ''slat'' = Inr False"
    and c: "types_of False True True ''clat'' = Inr True"
    and l: "types_of False True True ''lat'' = Inr True"
    by (simp_all add: types_of_def)
  have g: "gate off_stats False ''clat'' = ([Percentiles_not_found ''clat''], Inr False)"
    by (simp add: gate_def off_stats_def ret_def)
  have k: "compare_samples (\<lambda>_. Some sample_log)
      \<lparr>total_ios = 2, lat_ns = reads_stats, slat_ns = off_stats, clat_ns = off_stats\<rparr>
      off_stats 0 False ''clat'' False = ([], Inl (KeyError ''percentile''))"
    by (simp add: compare_samples_def load_sample_log_reads off_stats_def)
  show ?thesis
    by (simp add: check_latencies_def check_lat_disabled [OF d] check_lat_enabled [OF c]
        check_lat_enabled [OF l] stats_of_def gate_reads_stats compare_sample_reads g k
        sample_stats_fields)
qed

subsection \<open>C5: the histogram consistency checker\<close>

text \<open>
  C5, as stated, says that \<open>check_jsonplus\<close> returns True exactly when the reported minimum
  and maximum are within the relative tolerance \<open>1/128\<close> of the smallest and largest bucket
  keys and the counts add up to \<open>N\<close>, and that all three checks are evaluated on every
  call, each with its own diagnostic. Two tables on which this fails: with the single key
  \<open>2^60\<close> and the reported minimum \<open>2^60 + 2^53 + 1\<close> the float quotient rounds down to
  \<open>1/128\<close> and the call returns True, although the relative error is larger; with the
  keys 0 and 300, \<open>min = 0\<close>, \<open>max = 999\<close> and \<open>N = 7\<close> the first comparison divides
  by zero and the call raises without a diagnostic, although the maximum is out of
  tolerance and the counts add up to 10.
\<close>

theorem check_jsonplus_tolerance_counterexample:
  "check_jsonplus \<lparr>stat_N = 1, stat_min = 2 ^ 60 + 2 ^ 53 + 1, stat_max = 2 ^ 60,
      percentile = None, bins = Some [(''1152921504606846976'', 1)]\<rparr> = ([], Inr True)
   \<and> \<not> within_tolerance (2 ^ 60 + 2 ^ 53 + 1) (2 ^ 60)
   \<and> \<not> histogram_consistent \<lparr>stat_N = 1, stat_min = 2 ^ 60 + 2 ^ 53 + 1, stat_max = 2 ^ 60,
      percentile = None, bins = Some [(''1152921504606846976'', 1)]\<rparr>
   \<and> check_jsonplus \<lparr>stat_N = 7, stat_min = 0, stat_max = 999, percentile = None,
      bins = Some [(''0'', 5), (''300'', 5)]\<rparr> = ([], Inl ZeroDivisionError)
   \<and> \<not> within_tolerance 999 300
   \<and> sum_list (map snd [(''0'', 5), (''300'', 5 :: int)]) \<noteq> 7"
proof -
  have k: "map_err py_int (map fst [(''1152921504606846976'', 1 :: int)]) = Inr [2 ^ 60]"
    by (simp add: parse_defs)
  have s: "similar (2 ^ 60) (2 ^ 60) = Inr True" by (rule similar_refl) simp
  have a: "check_jsonplus \<lparr>stat_N = 1, stat_min = 2 ^ 60 + 2 ^ 53 + 1, stat_max = 2 ^ 60,
      percentile = None, bins = Some [(''1152921504606846976'', 1)]\<rparr> = ([], Inr True)"
    using check_jsonplus_evaluated
      [of "\<lparr>stat_N = 1, stat_min = 2 ^ 60 + 2 ^ 53 + 1, stat_max = 2 ^ 60,
             percentile = None, bins = Some [(''1152921504606846976'', 1)]\<rparr>"
          "[(''1152921504606846976'', 1)]" "[2 ^ 60]" True True]
      k s similar_rounds_to_bound
    by simp
  have t: "\<not> within_tolerance (2 ^ 60 + 2 ^ 53 + 1) (2 ^ 60)"
    by (simp add: within_tolerance_def)
  have h: "\<not> histogram_consistent \<lparr>stat_N = 1, stat_min = 2 ^ 60 + 2 ^ 53 + 1,
      stat_max = 2 ^ 60, percentile = None, bins = Some [(''1152921504606846976'', 1)]\<rparr>"
    using k t by (simp add: histogram_consistent_def)
  have k0: "map_err py_int (map fst [(''0'', 5 :: int), (''300'', 5)]) = Inr [0, 300]"
    by (simp add: parse_defs)
  have z: "check_jsonplus \<lparr>stat_N = 7, stat_min = 0, stat_max = 999, percentile = None,
      bins = Some [(''0'', 5), (''300'', 5)]\<rparr> = ([], Inl ZeroDivisionError)"
    using check_jsonplus_zero_key
      [of "\<lparr>stat_N = 7, stat_min = 0, stat_max = 999, percentile = None,
             bins = Some [(''0'', 5), (''300'', 5)]\<rparr>"
          "[(''0'', 5), (''300'', 5)]" "[0, 300]"]
      k0
    by simp
  have m: "\<not> within_tolerance 999 300" by (simp add: within_tolerance_def)
  from a t h z m show ?thesis by simp
qed

text \<open>
  C5, amended: for a table that is present, not empty, with integer keys, whose smallest
  key is positive and whose largest key is below \<open>2^53\<close>, and with the reported minimum and
  maximum below \<open>2^1023\<close> in absolute value, \<open>check_jsonplus\<close> evaluates all three checks
  and returns: it prints, in this order, one diagnostic for the minimum when its exact
  relative error to the smallest key exceeds \<open>1/128\<close>, one for the maximum when its exact
  relative error to the largest key exceeds \<open>1/128\<close>, and one for the size when the counts
  do not add up to \<open>N\<close>, each whatever the outcome of the other two; it returns True exactly
  when none is printed, that is exactly when the table is consistent in the sense of the
  specification. For a table that is present, not empty, with integer keys and whose
  smallest key is 0, the call raises \<^verbatim>\<open>ZeroDivisionError\<close> and prints nothing.
\<close>

theorem check_jsonplus_three_checks:
  assumes "bins jsondata = Some b" and "map_err py_int (map fst b) = Inr keys"
    and "keys \<noteq> []"
  shows "(0 < Min (set keys) \<and> Max (set keys) < 2 ^ 53
          \<and> \<bar>stat_min jsondata\<bar> < 2 ^ 1023 \<and> \<bar>stat_max jsondata\<bar> < 2 ^ 1023 \<longrightarrow>
        check_jsonplus jsondata =
          ((if within_tolerance (stat_min jsondata) (Min (set keys)) then []
            else [Min_mismatch (stat_min jsondata) (Min (set keys))]) @
           (if within_tolerance (stat_max jsondata) (Max (set keys)) then []
            else [Max_mismatch (stat_max jsondata) (Max (set keys))]) @
           (if sum_list (map snd b) = stat_N jsondata then []
            else [Size_mismatch (stat_N jsondata) (sum_list (map snd b))]),
           Inr (within_tolerance (stat_min jsondata) (Min (set keys))
                \<and> within_tolerance (stat_max jsondata) (Max (set keys))
                \<and> sum_list (map snd b) = stat_N jsondata))
        \<and> ((snd (check_jsonplus jsondata) = Inr True) = histogram_consistent jsondata))
     \<and> (Min (set keys) = 0 \<longrightarrow> check_jsonplus jsondata = ([], Inl ZeroDivisionError))"
  using check_jsonplus_exact [OF assms] check_jsonplus_true_iff [OF assms]
    check_jsonplus_zero_key [OF assms]
  by blast

theorem check_jsonplus_three_checks_witness:
  "check_jsonplus \<lparr>stat_N = 10, stat_min = 100, stat_max = 300, percentile = None,
      bins = Some [(''100'', 5), (''200'', 3), (''300'', 2)]\<rparr> = ([], Inr True)
   \<and> check_jsonplus \<lparr>stat_N = 9, stat_min = 100, stat_max = 300, percentile = None,
      bins = Some [(''100'', 5), (''200'', 3), (''300'', 2)]\<rparr> = ([Size_mismatch 9 10], Inr False)
   \<and> check_jsonplus \<lparr>stat_N = 9, stat_min = 100, stat_max = 310, percentile = None,
      bins = Some [(''100'', 5), (''200'', 3), (''300'', 2)]\<rparr>
        = ([Max_mismatch 310 300, Size_mismatch 9 10], Inr False)
   \<and> histogram_consistent \<lparr>stat_N = 10, stat_min = 100, stat_max = 300, percentile = None,
      bins = Some [(''100'', 5), (''200'', 3), (''300'', 2)]\<rparr>
   \<and> check_jsonplus \<lparr>stat_N = 1, stat_min = 0, stat_max = 0, percentile = None,
      bins = Some [(''0'', 1)]\<rparr> = ([], Inl ZeroDivisionError)
   \<and> map_err py_int (map fst [(''100'', 5 :: int), (''200'', 3), (''300'', 2)])
        = Inr [100, 200, 300]
   \<and> 0 < Min (set [100, 200, 300 :: int]) \<and> Max (set [100, 200, 300 :: int]) < 2 ^ 53
   \<and> map_err py_int (map fst [(''0'', 1 :: int)]) = Inr [0] \<and> Min (set [0 :: int]) = 0"
proof -
  have k: "map_err py_int (map fst [(''100'', 5 :: int), (''200'', 3), (''300'', 2)])
      = Inr [100, 200, 300]"
    by (simp add: parse_defs)
  have k0: "map_err py_int (map fst [(''0'', 1 :: int)]) = Inr [0]"
    by (simp add: parse_defs)
  have t: "within_tolerance 100 100" "within_tolerance 300 300" "\<not> within_tolerance 310 300"
    by (simp_all add: within_tolerance_def)
  note a = check_jsonplus_three_checks
      [of "\<lparr>stat_N = 10, stat_min = 100, stat_max = 300, percentile = None,
             bins = Some [(''100'', 5), (''200'', 3), (''300'', 2)]\<rparr>"
          "[(''100'', 5), (''200'', 3), (''300'', 2)]" "[100, 200, 300]"]
  have r1: "check_jsonplus \<lparr>stat_N = 10, stat_min = 100, stat_max = 300, percentile = None,
      bins = Some [(''100'', 5), (''200'', 3), (''300'', 2)]\<rparr> = ([], Inr True)"
    using a k t by simp
  have h1: "histogram_consistent \<lparr>stat_N = 10, stat_min = 100, stat_max = 300,
      percentile = None, bins = Some [(''100'', 5), (''200'', 3), (''300'', 2)]\<rparr>"
    using r1 a k t by simp
  have r2: "check_jsonplus \<lparr>stat_N = 9, stat_min = 100, stat_max = 300, percentile = None,
      bins = Some [(''100'', 5), (''200'', 3), (''300'', 2)]\<rparr>
        = ([Size_mismatch 9 10], Inr False)"
    using check_jsonplus_three_checks
      [of "\<lparr>stat_N = 9, stat_min = 100, stat_max = 300, percentile = None,
             bins = Some [(''100'', 5), (''200'', 3), (''300'', 2)]\<rparr>"
          "[(''100'', 5), (''200'', 3), (''300'', 2)]" "[100, 200, 300]"] k t
    by simp
  have r3: "check_jsonplus \<lparr>stat_N = 9, stat_min = 100, stat_max = 310, percentile = None,
      bins = Some [(''100'', 5), (''200'', 3), (''300'', 2)]\<rparr>
        = ([Max_mismatch 310 300, Size_mismatch 9 10], Inr False)"
    using check_jsonplus_three_checks
      [of "\<lparr>stat_N = 9, stat_min = 100, stat_max = 310, percentile = None,
             bins = Some [(''100'', 5), (''200'', 3), (''300'', 2)]\<rparr>"
          "[(''100'', 5), (''200'', 3), (''300'', 2)]" "[100, 200, 300]"] k t
    by simp
  have r4: "check_jsonplus \<lparr>stat_N = 1, stat_min = 0, stat_max = 0, percentile = None,
      bins = Some [(''0'', 1)]\<rparr> = ([], Inl ZeroDivisionError)"
    using check_jsonplus_three_checks
      [of "\<lparr>stat_N = 1, stat_min = 0, stat_max = 0, percentile = None,
             bins = Some [(''0'', 1)]\<rparr>" "[(''0'', 1)]" "[0]"] k0
    by simp
  from r1 r2 r3 h1 r4 k k0 show ?thesis by simp
qed

subsection \<open>C6: condensed fields against structured values\<close>

text \<open>
  C6, as stated, says that \<open>check_terse\<close> returns True exactly when every condensed value
  equals the integer floor division by 1000 of the structured value. The script takes the
  floor of the float quotient \<^verbatim>\<open>jsondata[pct]/1000\<close>: for the structured value
  35184372088831999 the quotient rounds up to 35184372088832, so the condensed value
  35184372088831, which is the integer floor division, is reported as a mismatch.
\<close>

theorem check_terse_float_floor_counterexample:
  "field_exact [(''99.000000'', 35184372088831999)] ''99.000000%=35184372088831''
   \<and> snd (check_terse [''99.000000%=35184372088831'']
              [(''99.000000'', 35184372088831999)]) = Inr False"
proof -
  have p: "parse_field ''99.000000%=35184372088831'' = Inr (''99.000000'', 35184372088831)"
    by (simp add: parse_field_def py_index_def parse_defs)
  have "int_truediv 35184372088831999 1000
      = Inr (rnd (of_int 35184372088831999 / of_int 1000))"
    by (rule int_truediv_finite) simp_all
  moreover have "rnd (35184372088831999 / 1000) = 35184372088832"
    by (simp add: rnd_normal [where k = 44] rnd_eval)
  ultimately have j: "json_micro [(''99.000000'', 35184372088831999)] ''99.000000''
      = Inr (35184372088831999, 35184372088832)"
    by (simp add: json_micro_def)
  show ?thesis using p j by (simp add: field_exact_def check_terse_def snd_bind ret_def)
qed

text \<open>
  C6, amended: when every condensed field parses, its label is a key of the structured
  report and the structured value is a non-negative integer below \<open>2^53\<close>, \<open>check_terse\<close>
  returns True if and only if every condensed value equals the integer floor division by
  1000 of the structured value, with no tolerance.
\<close>

theorem check_terse_exact_below_2_53:
  "list_all (field_in_domain jsondata) terse \<Longrightarrow>
   snd (check_terse terse jsondata) = Inr (list_all (field_exact jsondata) terse)"
  using terse_loop_verdict [of jsondata terse True] by (simp add: check_terse_def)

theorem check_terse_exact_below_2_53_witness:
  "list_all (field_in_domain [(''99.000000'', 1234000)]) [''99.000000%=1234'']
   \<and> snd (check_terse [''99.000000%=1234''] [(''99.000000'', 1234000)]) = Inr True
   \<and> list_all (field_in_domain [(''99.000000'', 1234000)]) [''99.000000%=1235'']
   \<and> snd (check_terse [''99.000000%=1235''] [(''99.000000'', 1234000)]) = Inr False"
  using check_terse_exact_below_2_53 [of "[(''99.000000'', 1234000)]" "[''99.000000%=1234'']"]
    check_terse_exact_below_2_53 [of "[(''99.000000'', 1234000)]" "[''99.000000%=1235'']"]
  by (simp add: field_in_domain_def field_exact_def scenario_C_field scenario_C_field2)


subsection \<open>C7: a sample count that disagrees with the report\<close>



subsection \<open>C8: encoding gating\<close>

text \<open>
  C8, as stated, says that a \<^verbatim>\<open>bins\<close> table present under the plain encoding is a
  failure for every latency type, enabled or disabled. The loop leaves a disabled type at
  its \<^verbatim>\<open>continue\<close>, before the table is looked at: with a table in the disabled
  \<^verbatim>\<open>slat\<close> section and two good enabled types the verdict is True.
\<close>

theorem histogram_of_disabled_type_counterexample:
  "check_latencies (\<lambda>_. Some sample_log)
      \<lparr>total_ios = 2, lat_ns = reads_stats,
       slat_ns = off_stats\<lparr>bins := Some [(''10'', 1), (''20'', 1)]\<rparr>, clat_ns = reads_stats\<rparr>
      0 False True True False False
    = ([Percentiles_skipped ''slat'', Percentiles_match ''clat'', Percentiles_match ''lat''],
       Inr True)"
proof -
  have d: "types_of False True True ''slat'' = Inr False"
    and c: "types_of False True True ''clat'' = Inr True"
    and l: "types_of False True True ''lat'' = Inr True"
    by (simp_all add: types_of_def)
  show ?thesis
    by (simp add: check_latencies_def check_lat_disabled [OF d] check_lat_enabled [OF c]
        check_lat_enabled [OF l] stats_of_def gate_reads_stats compare_sample_reads
        sample_stats_fields)
qed

text \<open>
  C8, amended: for an enabled latency type, a \<^verbatim>\<open>bins\<close> table present under the plain
  encoding, or absent under the extended encoding, makes the gate of that type yield
  False; \<open>check_latencies\<close> then never returns True, and returns False on every
  well-formed report. For a disabled type the loop body ends at \<^verbatim>\<open>continue\<close> whatever
  its table is.
\<close>

theorem encoding_gating_of_enabled_types:
  assumes "types_of slat clat tlat lat = Inr True"
    and "\<not> plus' \<and> bins (stats_of jsondata lat) \<noteq> None
         \<or> plus' \<and> bins (stats_of jsondata lat) = None"
  shows "snd (gate (stats_of jsondata lat) plus' lat) = Inr False
    \<and> snd (check_latencies read_log jsondata ddir slat clat tlat plus' unified) \<noteq> Inr True
    \<and> (report_wellformed read_log jsondata ddir slat clat tlat plus' unified \<longrightarrow>
         snd (check_latencies read_log jsondata ddir slat clat tlat plus' unified) = Inr False)
    \<and> (types_of slat clat tlat lat' = Inr False \<longrightarrow>
         snd (check_lat read_log jsondata ddir slat clat tlat plus' unified lat') = Inr None)"
proof -
  have g: "snd (gate (stats_of jsondata lat) plus' lat) = Inr False"
    using assms(2) by (rule gate_encoding_mismatch)
  have "r = Some False"
    if a: "snd (check_lat read_log jsondata ddir slat clat tlat plus' unified lat) = Inr r" for r
  proof -
    have "snd (gate (stats_of jsondata lat) plus' lat) \<noteq> Inr True
        \<or> (\<forall>t. snd (compare_samples read_log jsondata (stats_of jsondata lat) ddir unified
                      lat t) \<noteq> Inr True)"
      using g by simp
    from check_lat_failed [OF assms(1) this a] show ?thesis .
  qed
  with types_of_names [OF assms(1)]
  have "snd (lat_loop read_log jsondata ddir slat clat tlat plus' unified
      [''slat'', ''clat'', ''lat''] True) \<noteq> Inr True"
    by (rule lat_loop_failed_type)
  then have v: "snd (check_latencies read_log jsondata ddir slat clat tlat plus' unified)
      \<noteq> Inr True"
    by (simp add: check_latencies_def)
  have w: "report_wellformed read_log jsondata ddir slat clat tlat plus' unified \<longrightarrow>
      snd (check_latencies read_log jsondata ddir slat clat tlat plus' unified) = Inr False"
    using v check_latencies_returns [of read_log jsondata ddir slat clat tlat plus' unified]
    by auto
  have "types_of slat clat tlat lat' = Inr False \<longrightarrow>
      snd (check_lat read_log jsondata ddir slat clat tlat plus' unified lat') = Inr None"
    by (simp add: check_lat_disabled)
  with g v w show ?thesis by blast
qed

theorem encoding_gating_of_enabled_types_witness:
  "types_of False True True ''clat'' = Inr True
   \<and> bins (stats_of \<lparr>total_ios = 2, lat_ns = reads_stats, slat_ns = off_stats,
        clat_ns = reads_stats\<lparr>bins := Some [(''10'', 1), (''20'', 1)]\<rparr>\<rparr> ''clat'') \<noteq> None
   \<and> report_wellformed (\<lambda>_. Some sample_log)
        \<lparr>total_ios = 2, lat_ns = reads_stats, slat_ns = off_stats,
         clat_ns = reads_stats\<lparr>bins := Some [(''10'', 1), (''20'', 1)]\<rparr>\<rparr>
        0 False True True False False
   \<and> snd (check_latencies (\<lambda>_. Some sample_log)
        \<lparr>total_ios = 2, lat_ns = reads_stats, slat_ns = off_stats,
         clat_ns = reads_stats\<lparr>bins := Some [(''10'', 1), (''20'', 1)]\<rparr>\<rparr>
        0 False True True False False) = Inr False
   \<and> types_of False True True ''slat'' = Inr False
   \<and> snd (check_lat (\<lambda>_. Some sample_log)
        \<lparr>total_ios = 2, lat_ns = reads_stats, slat_ns = off_stats,
         clat_ns = reads_stats\<lparr>bins := Some [(''10'', 1), (''20'', 1)]\<rparr>\<rparr>
        0 False True True False False ''slat'') = Inr None"
proof -
  define j where "j = \<lparr>total_ios = 2, lat_ns = reads_stats, slat_ns = off_stats,
    clat_ns = reads_stats\<lparr>bins := Some [(''10'', 1), (''20'', 1)]\<rparr>\<rparr>"
  have t: "types_of False True True ''clat'' = Inr True" by (simp add: types_of_def)
  have d: "types_of False True True ''slat'' = Inr False" by (simp add: types_of_def)
  have b: "\<not> False \<and> bins (stats_of j ''clat'') \<noteq> None
      \<or> False \<and> bins (stats_of j ''clat'') = None"
    by (simp add: j_def stats_of_def)
  have w: "report_wellformed (\<lambda>_. Some sample_log) j 0 False True True False False"
    by (simp add: report_wellformed_def sample_type_wellformed j_def stats_of_def
        sample_stats_fields)
  from encoding_gating_of_enabled_types
    [OF t b, of "\<lambda>_. Some sample_log" 0 False "''slat''"] t d b w
  show ?thesis unfolding j_def by simp
qed

subsection \<open>C9: exceptions\<close>




subsection \<open>C10: the report parser\<close>

text \<open>
  C10: \<open>get_json\<close> tries the line offsets 0 to 4 in order, returns \<open>(True, document)\<close> for
  the first offset at which the remaining lines decode, and returns \<open>(False, '')\<close> exactly
  when the text decodes at none of the five offsets.
\<close>

theorem get_json_first_valid_offset:
  "get_json loads lines =
     (case List.find (\<lambda>i. loads (join_lines (drop i lines)) \<noteq> None) [0, 1, 2, 3, 4] of
        None \<Rightarrow> (False, Str [])
      | Some i \<Rightarrow>
          (case loads (join_lines (drop i lines)) of
             Some json_data \<Rightarrow> (True, Doc json_data)
           | None \<Rightarrow> (False, Str [])))
   \<and> ((get_json loads lines = (False, Str []))
        = list_all (\<lambda>i. loads (join_lines (drop i lines)) = None) [0, 1, 2, 3, 4])"
proof -
  have u: "[0 ..< 5] = [0, 1, 2, 3, 4 :: nat]" by (simp add: upt_rec)
  show ?thesis
    unfolding get_json_def u
    using try_offsets_find [of loads lines "[0, 1, 2, 3, 4]"]
      try_offsets_fails_iff [of loads lines "[0, 1, 2, 3, 4]"]
    by simp
qed

end
